theory Spec2Isabelle
  imports Complex_Main "HOL-Library.Sublist"
begin

section \<open>Data model of \<^verbatim>\<open>pys/market_data.py\<close>\<close>

text \<open>
  A timestamp is a number of minutes since 1970-01-01 00:00 (the source data are minute
  bars in naive UTC). A calendar date \<^verbatim>\<open>'YYYY-MM-DD'\<close>, the form in which the
  public entry points take \<^verbatim>\<open>start_date\<close> and \<^verbatim>\<open>end_date\<close>, is a number of
  days since 1970-01-01.
\<close>

type_synonym timestamp = int
type_synonym day = int

text \<open>\<^verbatim>\<open>pd.to_datetime('YYYY-MM-DD')\<close>: midnight of that date.\<close>

definition to_datetime :: "day \<Rightarrow> timestamp" where
  "to_datetime d = 1440 * d"

text \<open>\<^verbatim>\<open>ts.strftime('%Y-%m-%d')\<close>: the date of a timestamp, the time of day dropped.\<close>

definition strftime_ymd :: "timestamp \<Rightarrow> day" where
  "strftime_ymd ts = ts div 1440"

text \<open>
  The proleptic Gregorian calendar, as day arithmetic: the day number of a civil date and
  the civil date \<open>(year, month, day)\<close> of a day number.
\<close>

definition year_start :: "int \<Rightarrow> int" where
  \<comment> \<open>the days from 0000-03-01 to 1 March of the year \<open>y\<close>\<close>
  "year_start y = 365 * y + y div 4 - y div 100 + y div 400"

definition days_from_civil :: "int \<Rightarrow> int \<Rightarrow> int \<Rightarrow> day" where
  "days_from_civil y m d =
     (let y' = (if m \<le> 2 then y - 1 else y);
          doy = (153 * (if m > 2 then m - 3 else m + 9) + 2) div 5 + d - 1
      in year_start y' + doy - 719468)"

definition march_year :: "day \<Rightarrow> int" where
  \<comment> \<open>the year, counted from March to February, that a day lies in\<close>
  "march_year z =
     (let z' = z + 719468;
          era = z' div 146097;
          doe = z' - era * 146097;
          y0 = doe div 365;
          yoe = (if year_start y0 \<le> doe then y0 else y0 - 1)
      in 400 * era + yoe)"

definition civil_from_days :: "day \<Rightarrow> int \<times> int \<times> int" where
  "civil_from_days z =
     (let y' = march_year z;
          doy = z + 719468 - year_start y';
          mp = (5 * doy + 2) div 153;
          d = doy - (153 * mp + 2) div 5 + 1;
          m = (if mp < 10 then mp + 3 else mp - 9)
      in (if m \<le> 2 then y' + 1 else y', m, d))"

text \<open>\<^verbatim>\<open>pd.to_datetime(date).year\<close>\<close>

definition year_of :: "day \<Rightarrow> int" where
  "year_of d = fst (civil_from_days d)"

text \<open>
  One row of a minute data frame: the columns \<^verbatim>\<open>date, open, close, min, max, volume\<close>
  of the source's frames (\<^verbatim>\<open>min\<close> is the low, \<^verbatim>\<open>max\<close> the high). A data frame is the
  list of its rows in index order.
\<close>

record bar =
  date_col :: timestamp
  open_col :: real
  close_col :: real
  min_col :: real
  max_col :: real
  volume_col :: int

type_synonym frame = "bar list"

section \<open>DataStorage: processed data\<close>

text \<open>
  The files \<^verbatim>\<open>save_processed_data\<close> writes into an instrument's directory are named
  \<^verbatim>\<open>{ticker}_{start}_{end}.parquet\<close>, with the dates of the first and last timestamp,
  or \<^verbatim>\<open>{ticker}_empty.parquet\<close>. Within one directory a name is determined by the two
  dates, so a name is modelled by them.
\<close>

datatype fname = Span day day | Empty_file

text \<open>
  A directory is the list of its files in the order \<^verbatim>\<open>os.listdir\<close> reports them, each
  name once. Writing a file that exists replaces its content; a new file is listed last
  (the order of \<^verbatim>\<open>os.listdir\<close> is not specified; the properties of loading below hold
  for every directory, hence for every listing order).
\<close>

type_synonym pdir = "(fname \<times> frame) list"

fun write_file :: "'k \<Rightarrow> 'v \<Rightarrow> ('k \<times> 'v) list \<Rightarrow> ('k \<times> 'v) list" where
  "write_file k v [] = [(k, v)]"
| "write_file k v ((k', v') # fs) =
     (if k' = k then (k, v) # fs else (k', v') # write_file k v fs)"

text \<open>\<^verbatim>\<open>data['date'].min()\<close> and \<^verbatim>\<open>.max()\<close> of a non-empty frame.\<close>

definition date_min :: "frame \<Rightarrow> timestamp" where
  "date_min df = Min (set (map date_col df))"

definition date_max :: "frame \<Rightarrow> timestamp" where
  "date_max df = Max (set (map date_col df))"

text \<open>\<^verbatim>\<open>df.drop_duplicates(subset=['date'])\<close>: of the rows with one date, the first stays.\<close>

fun drop_duplicates :: "frame \<Rightarrow> frame" where
  "drop_duplicates [] = []"
| "drop_duplicates (b # bs) =
     b # drop_duplicates (filter (\<lambda>c. date_col c \<noteq> date_col b) bs)"

text \<open>
  \<^verbatim>\<open>df.sort_values(by='date')\<close>. Rows with equal dates are kept here in their order,
  which the default sort of pandas does not promise; where the source sorts after
  \<^verbatim>\<open>drop_duplicates\<close> there are no such rows.
\<close>

definition sort_values :: "frame \<Rightarrow> frame" where
  "sort_values df = sort_key date_col df"

text \<open>
  The part of the file system and of the outside world the program works on.
  \<^item> \<open>processed w ticker\<close> is the directory \<^verbatim>\<open>processed_data/{ticker}\<close>
    (\<^verbatim>\<open>get_ticker_processed_path\<close>; a directory that does not exist yet is created
    empty, so it is the empty directory here).
  \<^item> \<open>raw w ticker\<close> is the directory \<^verbatim>\<open>raw_data/{ticker}\<close>; see below.
  \<^item> \<open>figi_txt w\<close> is the file \<^verbatim>\<open>figi.txt\<close> of the base directory, as its lines,
    \<open>None\<close> when it does not exist.
  \<^item> \<open>requests w\<close> lists the HTTP requests made so far, as \<open>(figi, year)\<close>, and
    \<open>slept w\<close> is the time spent in \<^verbatim>\<open>time.sleep\<close>, in seconds.
\<close>

datatype raw_row =
  Raw_row (raw_date: "timestamp option") (raw_open: real) (raw_close: real)
    (raw_min: real) (raw_max: real) (raw_volume: int)

datatype csv = Unreadable | Csv "raw_row list"

datatype archive = Bad_zip | Zip "csv list"

type_synonym rdir = "((string \<times> int) \<times> archive) list"

record world =
  processed :: "string \<Rightarrow> pdir"
  raw :: "string \<Rightarrow> rdir"
  figi_txt :: "string list option"
  requests :: "(string \<times> int) list"
  slept :: nat

definition get_ticker_processed_path :: "world \<Rightarrow> string \<Rightarrow> pdir" where
  "get_ticker_processed_path w ticker = processed w ticker"

definition save_processed_data :: "world \<Rightarrow> string \<Rightarrow> frame \<Rightarrow> world" where
  "save_processed_data w ticker data =
     (let ticker_dir = get_ticker_processed_path w ticker;
          file_name =
            (if length data > 0
             then Span (strftime_ymd (date_min data)) (strftime_ymd (date_max data))
             else Empty_file)
      in w\<lparr>processed := (processed w)(ticker := write_file file_name data ticker_dir)\<rparr>)"

definition load_processed_data :: "world \<Rightarrow> string \<Rightarrow> frame option" where
  "load_processed_data w ticker =
     (let ticker_dir = get_ticker_processed_path w ticker;
          all_files = map fst ticker_dir
      in if all_files = [] then None
         else let dfs = map snd ticker_dir in
           if dfs = [] then None
           else Some (sort_values (drop_duplicates (concat dfs))))"

definition get_missing_date_ranges ::
  "world \<Rightarrow> string \<Rightarrow> day \<Rightarrow> day \<Rightarrow> (timestamp \<times> timestamp) list" where
  "get_missing_date_ranges w ticker start_date end_date =
     (let existing_data = load_processed_data w ticker;
          start_dt = to_datetime start_date;
          end_dt = to_datetime end_date
      in case existing_data of
           None \<Rightarrow> [(start_dt, end_dt)]
         | Some existing \<Rightarrow>
             if length existing = 0 then [(start_dt, end_dt)]
             else let min_date = date_min existing;
                      max_date = date_max existing;
                      missing_ranges = [];
                      missing_ranges =
                        (if start_dt < min_date then missing_ranges @ [(start_dt, min_date)]
                         else missing_ranges);
                      missing_ranges =
                        (if end_dt > max_date then missing_ranges @ [(max_date, end_dt)]
                         else missing_ranges)
                  in missing_ranges)"

section \<open>TimeframeConverter\<close>

text \<open>
  The frequencies that the rules of \<^verbatim>\<open>resample_map\<close> and the default \<^verbatim>\<open>'1D'\<close> denote
  (the frequency aliases of the pandas versions the source is written for): \<^verbatim>\<open>5T\<close> and
  \<^verbatim>\<open>15T\<close> are 5 and 15 minutes, \<^verbatim>\<open>H\<close> an hour, \<^verbatim>\<open>D\<close> and \<^verbatim>\<open>1D\<close> a day, \<^verbatim>\<open>W\<close> a
  week ending on Sunday, \<^verbatim>\<open>M\<close> a calendar month labelled by its last day. Any other
  string is an invalid frequency, for which pandas raises \<^verbatim>\<open>ValueError\<close>.
\<close>

datatype offset = Minute int | Hour | Day | Week | Month_end

datatype error = ValueError

definition to_offset :: "string \<Rightarrow> offset option" where
  "to_offset rule =
     (if rule = ''5T'' then Some (Minute 5)
      else if rule = ''15T'' then Some (Minute 15)
      else if rule = ''H'' then Some Hour
      else if rule = ''D'' \<or> rule = ''1D'' then Some Day
      else if rule = ''W'' then Some Week
      else if rule = ''M'' then Some Month_end
      else None)"

text \<open>
  The months are numbered consecutively, January of the year \<open>y\<close> being \<open>12 * y\<close>:
  the month a day lies in, and the first day of a month.
\<close>

definition month_index :: "day \<Rightarrow> int" where
  "month_index z = (case civil_from_days z of (y, m, d) \<Rightarrow> 12 * y + (m - 1))"

definition month_start :: "int \<Rightarrow> day" where
  "month_start k = days_from_civil (k div 12) (k mod 12 + 1) 1"

text \<open>
  The buckets of \<^verbatim>\<open>df.resample(rule)\<close>, numbered consecutively: \<open>bucket_of\<close> is the
  number of the bucket a timestamp falls in, \<open>label_of\<close> the timestamp that labels a
  bucket in the output. Minute, hour and day buckets are closed on the left and labelled
  by their start; a week is Monday to Sunday and labelled by the Sunday, a month is
  labelled by its last day (both at 00:00).
\<close>

fun bucket_of :: "offset \<Rightarrow> timestamp \<Rightarrow> int" where
  "bucket_of (Minute n) ts = ts div n"
| "bucket_of Hour ts = ts div 60"
| "bucket_of Day ts = ts div 1440"
| "bucket_of Week ts = (ts div 1440 + 3) div 7"
| "bucket_of Month_end ts = month_index (ts div 1440)"

fun label_of :: "offset \<Rightarrow> int \<Rightarrow> timestamp" where
  "label_of (Minute n) k = n * k"
| "label_of Hour k = 60 * k"
| "label_of Day k = 1440 * k"
| "label_of Week k = 1440 * (7 * k + 3)"
| "label_of Month_end k = 1440 * (month_start (k + 1) - 1)"

text \<open>
  A row of a resampled frame: the columns \<^verbatim>\<open>date, open, min, max, close, volume\<close>. A
  price of a bucket without rows is missing (NaN), here \<open>None\<close>; its volume is the
  empty sum.
\<close>

record rbar =
  date_out :: timestamp
  open_out :: "real option"
  min_out :: "real option"
  max_out :: "real option"
  close_out :: "real option"
  volume_out :: int

type_synonym rframe = "rbar list"

text \<open>The aggregations \<^verbatim>\<open>'first'\<close>, \<^verbatim>\<open>'min'\<close>, \<^verbatim>\<open>'max'\<close>, \<^verbatim>\<open>'last'\<close> of a column of a group.\<close>

definition agg_first :: "real list \<Rightarrow> real option" where
  "agg_first xs = (case xs of [] \<Rightarrow> None | x # _ \<Rightarrow> Some x)"

definition agg_last :: "real list \<Rightarrow> real option" where
  "agg_last xs = (if xs = [] then None else Some (last xs))"

definition agg_min :: "real list \<Rightarrow> real option" where
  "agg_min xs = (if xs = [] then None else Some (Min (set xs)))"

definition agg_max :: "real list \<Rightarrow> real option" where
  "agg_max xs = (if xs = [] then None else Some (Max (set xs)))"

definition agg :: "offset \<Rightarrow> int \<Rightarrow> frame \<Rightarrow> rbar" where
  "agg off k g =
     \<lparr>date_out = label_of off k,
      open_out = agg_first (map open_col g),
      min_out = agg_min (map min_col g),
      max_out = agg_max (map max_col g),
      close_out = agg_last (map close_col g),
      volume_out = sum_list (map volume_col g)\<rparr>"

text \<open>
  \<^verbatim>\<open>df.resample(rule).agg(agg_dict)\<close> followed by \<^verbatim>\<open>reset_index\<close>, for a frame with at
  least one row: the rows are taken in the order of their dates (rows with equal dates in
  the order of the frame), and the result has one row for every bucket from the bucket of
  the first date to the bucket of the last.
\<close>

definition resample :: "offset \<Rightarrow> frame \<Rightarrow> rframe" where
  "resample off df =
     (let rows = sort_key date_col df;
          first_bucket = bucket_of off (date_col (hd rows));
          last_bucket = bucket_of off (date_col (last rows))
      in map (\<lambda>k. agg off k (filter (\<lambda>b. bucket_of off (date_col b) = k) rows))
           [first_bucket..last_bucket])"

text \<open>
  \<^verbatim>\<open>resample_ohlcv\<close>. A frame of this model has all the required columns, so the check
  of the columns cannot fail; the only error left is an invalid frequency.
\<close>

definition resample_map :: "(string \<times> string) list" where
  "resample_map =
     [(''5min'', ''5T''), (''15min'', ''15T''), (''1h'', ''H''), (''1d'', ''D''),
      (''1w'', ''W''), (''1M'', ''M'')]"

definition resample_ohlcv :: "frame option \<Rightarrow> string \<Rightarrow> error + rframe" where
  "resample_ohlcv df timeframe =
     (case df of
        None \<Rightarrow> Inr []
      | Some rows \<Rightarrow>
          if length rows = 0 then Inr []
          else let rule = (case map_of resample_map timeframe of
                             Some r \<Rightarrow> r | None \<Rightarrow> ''1D'')
               in case to_offset rule of
                    None \<Rightarrow> Inl ValueError
                  | Some off \<Rightarrow> Inr (resample off rows))"

section \<open>TinkoffDataDownloader\<close>

text \<open>
  A row of the instrument table. The downloader is given by the table of all shares
  (\<^verbatim>\<open>df_screener_all\<close>, fetched once by \<^verbatim>\<open>initialize_instruments\<close>) and by the remote
  service: \<open>server dl n figi year\<close> is the outcome of \<^verbatim>\<open>requests.get\<close> for
  \<open>figi\<close> and \<open>year\<close> when \<open>n\<close> requests have been made before it, either a
  response with its status code and content or an exception.
\<close>

record instrument =
  name_col :: string
  ticker_col :: string
  uid_col :: string
  figi_col :: string
  isin_col :: string
  lot_col :: int
  currency_col :: string

datatype response = Response (status_code: nat) (content: archive) | Request_exception

record downloader =
  df_screener_all :: "instrument list"
  server :: "nat \<Rightarrow> string \<Rightarrow> int \<Rightarrow> response"

definition df_screener_rub :: "downloader \<Rightarrow> instrument list" where
  "df_screener_rub dl = filter (\<lambda>r. currency_col r = ''rub'') (df_screener_all dl)"

definition get_figi :: "downloader \<Rightarrow> string \<Rightarrow> string list" where
  "get_figi dl ticker =
     (let ticker_figi = filter (\<lambda>r. ticker_col r = ticker) (df_screener_rub dl) in
      if ticker_figi \<noteq> [] then
        (if length ticker_figi > 1 then map figi_col ticker_figi
         else [figi_col (hd ticker_figi)])
      else [])"

definition get_uid :: "downloader \<Rightarrow> string \<Rightarrow> string list" where
  "get_uid dl ticker =
     (let ticker_figi = filter (\<lambda>r. ticker_col r = ticker) (df_screener_rub dl) in
      if ticker_figi \<noteq> [] then
        (if length ticker_figi > 1 then map uid_col ticker_figi
         else [uid_col (hd ticker_figi)])
      else [])"

definition get_isin :: "downloader \<Rightarrow> string \<Rightarrow> string list" where
  "get_isin dl ticker =
     (let ticker_figi = filter (\<lambda>r. ticker_col r = ticker) (df_screener_rub dl) in
      if ticker_figi \<noteq> [] then
        (if length ticker_figi > 1 then map isin_col ticker_figi
         else [isin_col (hd ticker_figi)])
      else [])"

text \<open>\<^verbatim>\<open>figi in line\<close> for some line of \<^verbatim>\<open>figi.txt\<close>: the identifier is a substring.\<close>

definition is_figi_correct :: "world \<Rightarrow> string \<Rightarrow> bool" where
  "is_figi_correct w figi =
     (case figi_txt w of
        None \<Rightarrow> False
      | Some lines \<Rightarrow> list_ex (\<lambda>line. sublist figi line) lines)"

definition get_correct_figi :: "world \<Rightarrow> string list \<Rightarrow> string" where
  "get_correct_figi w figi_list =
     (case find (is_figi_correct w) figi_list of Some figi \<Rightarrow> figi | None \<Rightarrow> ''0'')"

text \<open>
  The raw directory of an instrument holds the archives \<^verbatim>\<open>{figi}_{year}.zip\<close>, a
  name being modelled by the pair. \<^verbatim>\<open>extract_raw_data\<close> unpacks every archive of the
  directory that is a zip file and collects the CSV files found beside it (an archive
  fetched again for the same pair replaces the files of the earlier one).
\<close>

definition get_ticker_raw_path :: "world \<Rightarrow> string \<Rightarrow> rdir" where
  "get_ticker_raw_path w ticker = raw w ticker"

definition store_raw_data :: "world \<Rightarrow> string \<Rightarrow> string \<Rightarrow> int \<Rightarrow> archive \<Rightarrow> world" where
  "store_raw_data w ticker figi year content' =
     (let ticker_dir = get_ticker_raw_path w ticker in
      w\<lparr>raw := (raw w)(ticker := write_file (figi, year) content' ticker_dir)\<rparr>)"

definition extract_raw_data :: "world \<Rightarrow> string \<Rightarrow> csv list" where
  "extract_raw_data w ticker =
     (let ticker_dir = get_ticker_raw_path w ticker in
      concat (map (\<lambda>(file, zip). case zip of Bad_zip \<Rightarrow> [] | Zip csvs \<Rightarrow> csvs) ticker_dir))"

text \<open>
  \<^verbatim>\<open>load_raw_csv_files\<close>: a file that \<^verbatim>\<open>pd.read_csv\<close> cannot read, or that has no
  rows, is skipped; a date that does not have the format \<^verbatim>\<open>%Y-%m-%dT%H:%M:%SZ\<close>
  (a row whose \<open>raw_date\<close> is \<open>None\<close>) makes \<^verbatim>\<open>pd.to_datetime\<close> raise.
\<close>

definition csv_rows :: "csv \<Rightarrow> raw_row list option" where
  "csv_rows file = (case file of Unreadable \<Rightarrow> None | Csv rows \<Rightarrow> if rows = [] then None else Some rows)"

definition parse_row :: "raw_row \<Rightarrow> bar option" where
  "parse_row r =
     (case raw_date r of
        None \<Rightarrow> None
      | Some t \<Rightarrow>
          Some \<lparr>date_col = t, open_col = raw_open r, close_col = raw_close r,
                min_col = raw_min r, max_col = raw_max r, volume_col = raw_volume r\<rparr>)"

definition load_raw_csv_files :: "csv list \<Rightarrow> error + frame option" where
  "load_raw_csv_files csv_files =
     (let dfs = List.map_filter csv_rows csv_files in
      if dfs = [] then Inr None
      else let combined_df = concat dfs in
        if list_ex (\<lambda>r. raw_date r = None) combined_df then Inl ValueError
        else Inr (Some (sort_values (List.map_filter parse_row combined_df))))"

text \<open>
  \<^verbatim>\<open>_download_year_data\<close>. The result is \<open>None\<close> when the call does not return, and
  else the path of the stored archive (or \<^verbatim>\<open>None\<close>) with the new state of the world.
  The depth of the recursion is not bounded here.
\<close>

partial_function (option) download_year_data ::
  "downloader \<Rightarrow> string \<Rightarrow> string \<Rightarrow> int \<Rightarrow> world \<Rightarrow> ((string \<times> int) option \<times> world) option"
where
  "download_year_data dl ticker figi year w =
     (case server dl (length (requests w)) figi year of
        Request_exception \<Rightarrow> Some (None, w\<lparr>requests := requests w @ [(figi, year)]\<rparr>)
      | Response code body \<Rightarrow>
          if code = 200 then
            Some (Some (figi, year),
              store_raw_data (w\<lparr>requests := requests w @ [(figi, year)]\<rparr>) ticker figi year body)
          else if code = 429 then
            download_year_data dl ticker figi year
              (w\<lparr>requests := requests w @ [(figi, year)], slept := slept w + 5\<rparr>)
          else if code = 404 then Some (None, w\<lparr>requests := requests w @ [(figi, year)]\<rparr>)
          else Some (None, w\<lparr>requests := requests w @ [(figi, year)]\<rparr>))"

declare download_year_data.simps [code]

text \<open>The loops of \<^verbatim>\<open>download_for_ticker\<close> over the years, and over the identifiers.\<close>

fun download_years ::
  "downloader \<Rightarrow> string \<Rightarrow> string \<Rightarrow> int list \<Rightarrow> (string \<times> int) list \<Rightarrow> world
     \<Rightarrow> ((string \<times> int) list \<times> world) option" where
  "download_years dl ticker figi [] downloaded_files w = Some (downloaded_files, w)"
| "download_years dl ticker figi (year # years) downloaded_files w =
     (case download_year_data dl ticker figi year w of
        None \<Rightarrow> None
      | Some (file_path, w') \<Rightarrow>
          download_years dl ticker figi years
            (case file_path of None \<Rightarrow> downloaded_files | Some p \<Rightarrow> downloaded_files @ [p]) w')"

fun download_ids ::
  "downloader \<Rightarrow> string \<Rightarrow> string list \<Rightarrow> int list \<Rightarrow> (string \<times> int) list \<Rightarrow> world
     \<Rightarrow> ((string \<times> int) list \<times> world) option" where
  "download_ids dl ticker [] years downloaded_files w = Some (downloaded_files, w)"
| "download_ids dl ticker (instrument_id # ids) years downloaded_files w =
     (case download_years dl ticker instrument_id years downloaded_files w of
        None \<Rightarrow> None
      | Some (downloaded_files', w') \<Rightarrow> download_ids dl ticker ids years downloaded_files' w')"

fun download_lists ::
  "downloader \<Rightarrow> string \<Rightarrow> string list list \<Rightarrow> int list \<Rightarrow> (string \<times> int) list \<Rightarrow> world
     \<Rightarrow> ((string \<times> int) list \<times> world) option" where
  "download_lists dl ticker [] years downloaded_files w = Some (downloaded_files, w)"
| "download_lists dl ticker (instrument_list # instrument_lists) years downloaded_files w =
     (case download_ids dl ticker instrument_list years downloaded_files w of
        None \<Rightarrow> None
      | Some (downloaded_files', w') \<Rightarrow>
          download_lists dl ticker instrument_lists years downloaded_files' w')"

text \<open>
  \<^verbatim>\<open>download_for_ticker\<close>: \<open>None\<close> when it does not return; else the exception it
  raises or the frame it returns (\<^verbatim>\<open>None\<close> when no CSV file was read), and the world.
\<close>

definition download_for_ticker ::
  "downloader \<Rightarrow> world \<Rightarrow> string \<Rightarrow> day \<Rightarrow> day \<Rightarrow> ((error + frame option) \<times> world) option" where
  "download_for_ticker dl w ticker start_date end_date =
     (let start_year = year_of start_date;
          end_year = year_of end_date;
          years_to_download = [start_year..end_year];
          ticker_figi = get_figi dl ticker;
          ticker_uid = get_uid dl ticker;
          ticker_isin = get_isin dl ticker;
          correct_figi = get_correct_figi w ticker_figi
      in case (if correct_figi \<noteq> ''0''
               then download_years dl ticker correct_figi years_to_download [] w
               else download_lists dl ticker [ticker_figi, ticker_isin, ticker_uid]
                      years_to_download [] w) of
           None \<Rightarrow> None
         | Some (downloaded_files, w') \<Rightarrow>
             let csv_files = extract_raw_data w' ticker in
             (case load_raw_csv_files csv_files of
                Inl e \<Rightarrow> Some (Inl e, w')
              | Inr None \<Rightarrow> Some (Inr None, w')
              | Inr (Some data) \<Rightarrow>
                  let start_date_dt = to_datetime start_date;
                      end_date_dt = to_datetime end_date;
                      data' = filter (\<lambda>b. date_col b \<ge> start_date_dt \<and> date_col b \<le> end_date_dt) data
                  in Some (Inr (Some data'), save_processed_data w' ticker data')))"

section \<open>MarketDataManager\<close>

text \<open>What \<^verbatim>\<open>get_data\<close> returns: a minute frame or a resampled one.\<close>

datatype data = Minute_data frame | Resampled rframe

text \<open>
  The loop of \<^verbatim>\<open>get_data\<close> over the missing ranges, which merges what each download
  returns into the existing data.
\<close>

definition merge_data :: "frame \<Rightarrow> frame \<Rightarrow> frame" where
  "merge_data existing_data new_data =
     sort_values (drop_duplicates (existing_data @ new_data))"

fun download_missing ::
  "downloader \<Rightarrow> string \<Rightarrow> (timestamp \<times> timestamp) list \<Rightarrow> frame \<Rightarrow> world
     \<Rightarrow> ((error + frame) \<times> world) option" where
  "download_missing dl ticker [] existing_data w = Some (Inr existing_data, w)"
| "download_missing dl ticker ((range_start, range_end) # missing_ranges) existing_data w =
     (case download_for_ticker dl w ticker (strftime_ymd range_start) (strftime_ymd range_end) of
        None \<Rightarrow> None
      | Some (Inl e, w') \<Rightarrow> Some (Inl e, w')
      | Some (Inr new_data, w') \<Rightarrow>
          download_missing dl ticker missing_ranges
            (case new_data of
               None \<Rightarrow> existing_data
             | Some new \<Rightarrow> if length new > 0 then merge_data existing_data new else existing_data)
            w')"

text \<open>The first part of \<^verbatim>\<open>get_data\<close>: the minute data of the requested range.\<close>

definition get_minute_data ::
  "downloader \<Rightarrow> world \<Rightarrow> string \<Rightarrow> day \<Rightarrow> day \<Rightarrow> bool \<Rightarrow> ((error + frame option) \<times> world) option" where
  "get_minute_data dl w ticker start_date end_date force_download =
     (let existing_data = (if force_download then None else load_processed_data w ticker) in
      case existing_data of
        Some existing \<Rightarrow>
          let missing_ranges = get_missing_date_ranges w ticker start_date end_date in
          (case download_missing dl ticker missing_ranges existing w of
             None \<Rightarrow> None
           | Some (Inl e, w') \<Rightarrow> Some (Inl e, w')
           | Some (Inr existing', w') \<Rightarrow>
               let start_date_dt = to_datetime start_date;
                   end_date_dt = to_datetime end_date
               in Some (Inr (Some (filter (\<lambda>b. date_col b \<ge> start_date_dt \<and> date_col b \<le> end_date_dt)
                                     existing')), w'))
      | None \<Rightarrow> download_for_ticker dl w ticker start_date end_date)"

text \<open>The last step of \<^verbatim>\<open>get_data\<close>: the conversion to the timeframe asked for.\<close>

definition convert_timeframe :: "string \<Rightarrow> frame option \<Rightarrow> error + data option" where
  "convert_timeframe timeframe data =
     (case data of
        None \<Rightarrow> Inr None
      | Some df \<Rightarrow>
          if timeframe \<noteq> ''1min'' \<and> length df > 0 then
            (case resample_ohlcv (Some df) timeframe of
               Inl e \<Rightarrow> Inl e
             | Inr r \<Rightarrow> Inr (Some (Resampled r)))
          else Inr (Some (Minute_data df)))"

definition get_data ::
  "downloader \<Rightarrow> world \<Rightarrow> string \<Rightarrow> day \<Rightarrow> day \<Rightarrow> string \<Rightarrow> bool
     \<Rightarrow> ((error + data option) \<times> world) option" where
  "get_data dl w ticker start_date end_date timeframe force_download =
     (case get_minute_data dl w ticker start_date end_date force_download of
        None \<Rightarrow> None
      | Some (Inl e, w') \<Rightarrow> Some (Inl e, w')
      | Some (Inr data, w') \<Rightarrow> Some (convert_timeframe timeframe data, w'))"

text \<open>
  \<^verbatim>\<open>get_data_for_multiple_tickers\<close>. The futures are modelled by running \<^verbatim>\<open>get_data\<close>
  for the tickers one after the other, in the order in which they are submitted; a
  future holds the frame its call returned or the exception it raised. The loop over
  the futures then fills the dictionary of results, an exception giving \<^verbatim>\<open>None\<close>.
\<close>

fun run_futures ::
  "downloader \<Rightarrow> world \<Rightarrow> string list \<Rightarrow> day \<Rightarrow> day \<Rightarrow> string
     \<Rightarrow> ((string \<times> (error + data option)) list \<times> world) option" where
  "run_futures dl w [] start_date end_date timeframe = Some ([], w)"
| "run_futures dl w (ticker # tickers) start_date end_date timeframe =
     (case get_data dl w ticker start_date end_date timeframe False of
        None \<Rightarrow> None
      | Some (res, w') \<Rightarrow>
          (case run_futures dl w' tickers start_date end_date timeframe of
             None \<Rightarrow> None
           | Some (futures, w'') \<Rightarrow> Some ((ticker, res) # futures, w'')))"

fun collect_results ::
  "(string \<times> (error + data option)) list \<Rightarrow> (string \<rightharpoonup> data option) \<Rightarrow> (string \<rightharpoonup> data option)" where
  "collect_results [] results = results"
| "collect_results ((ticker, future) # futures) results =
     collect_results futures
       (case future of
          Inr data \<Rightarrow> results(ticker \<mapsto> data)
        | Inl e \<Rightarrow> results(ticker \<mapsto> None))"

definition get_data_for_multiple_tickers ::
  "downloader \<Rightarrow> world \<Rightarrow> string list \<Rightarrow> day \<Rightarrow> day \<Rightarrow> string
     \<Rightarrow> ((string \<rightharpoonup> data option) \<times> world) option" where
  "get_data_for_multiple_tickers dl w tickers start_date end_date timeframe =
     (case run_futures dl w tickers start_date end_date timeframe of
        None \<Rightarrow> None
      | Some (future_to_ticker, w') \<Rightarrow> Some (collect_results future_to_ticker Map.empty, w'))"

section \<open>Example inputs\<close>

definition empty_world :: world where
  "empty_world =
     \<lparr>processed = (\<lambda>ticker. []), raw = (\<lambda>ticker. []), figi_txt = None,
      requests = [], slept = 0\<rparr>"

definition flat_bar :: "timestamp \<Rightarrow> real \<Rightarrow> bar" where
  "flat_bar t p =
     \<lparr>date_col = t, open_col = p, close_col = p, min_col = p, max_col = p, volume_col = 1\<rparr>"

text \<open>A store whose data for SBER extend from 2023-01-10 to 2023-06-30.\<close>

definition extent_world :: world where
  "extent_world =
     empty_world\<lparr>processed := (\<lambda>ticker. [])
       (''SBER'' := [(Span (days_from_civil 2023 1 10) (days_from_civil 2023 6 30),
                      [flat_bar (to_datetime (days_from_civil 2023 1 10)) 100,
                       flat_bar (to_datetime (days_from_civil 2023 6 30)) 120])])\<rparr>"

text \<open>
  A store into which two fragments for SBER were saved one after the other, with
  different prices for the timestamp 0.
\<close>

definition two_fragments :: world where
  "two_fragments =
     save_processed_data (save_processed_data empty_world ''SBER'' [flat_bar 0 1])
       ''SBER'' [flat_bar 0 2, flat_bar 1440 3]"

definition ohlcv :: "timestamp \<Rightarrow> real \<Rightarrow> real \<Rightarrow> real \<Rightarrow> real \<Rightarrow> int \<Rightarrow> bar" where
  \<comment> \<open>a bar from its timestamp, open, high, low, close and volume\<close>
  "ohlcv t o' h l c v =
     \<lparr>date_col = t, open_col = o', close_col = c, min_col = l, max_col = h, volume_col = v\<rparr>"


text \<open>Two minute bars at 09:00 and 09:10, with no bar from 09:05 to 09:10.\<close>

definition gap_bars :: frame where
  "gap_bars = [ohlcv 540 10 11 9 10 100, ohlcv 550 9 12 9 11 200]"


text \<open>A response with the status 429 (the rate limit is exceeded).\<close>

definition rate_limited :: "response \<Rightarrow> bool" where
  "rate_limited r = (case r of Response code body \<Rightarrow> code = 429 | Request_exception \<Rightarrow> False)"






definition jan2_bar :: bar where
  "jan2_bar = ohlcv (to_datetime (days_from_civil 2023 1 2) + 600) 100 102 99 101 5"




text \<open>
  A service is stateless when its answer to a request does not depend on the requests
  made before.
\<close>

definition stateless :: "downloader \<Rightarrow> bool" where
  "stateless dl = (\<forall>n figi year. server dl n figi year = server dl 0 figi year)"

text \<open>
  Two worlds hold the same files for an instrument; and a step of the program, from
  \<open>w\<close> to \<open>w'\<close>, has left the files of every other instrument as they were.
\<close>

definition same_files :: "string \<Rightarrow> world \<Rightarrow> world \<Rightarrow> bool" where
  "same_files ticker w1 w2 =
     (processed w1 ticker = processed w2 ticker \<and> raw w1 ticker = raw w2 ticker \<and>
      figi_txt w1 = figi_txt w2)"

definition other_files_kept :: "string \<Rightarrow> world \<Rightarrow> world \<Rightarrow> bool" where
  "other_files_kept ticker w w' =
     (figi_txt w' = figi_txt w \<and>
      (\<forall>t. t \<noteq> ticker \<longrightarrow> processed w' t = processed w t \<and> raw w' t = raw w t))"

text \<open>
  A service that knows the instruments SBER and GAZP; the archive it has for GAZP holds a
  row whose date cannot be read. And a batch for the two instruments on an empty store.
\<close>

definition market_service :: downloader where
  "market_service =
     \<lparr>df_screener_all =
        [\<lparr>name_col = ''Sberbank'', ticker_col = ''SBER'', uid_col = ''U'', figi_col = ''F'',
          isin_col = ''I'', lot_col = 10, currency_col = ''rub''\<rparr>,
         \<lparr>name_col = ''Gazprom'', ticker_col = ''GAZP'', uid_col = ''V'', figi_col = ''G'',
          isin_col = ''J'', lot_col = 10, currency_col = ''rub''\<rparr>],
      server = (\<lambda>n figi year.
        if figi = ''F'' \<and> year = 2023
        then Response 200
               (Zip [Csv [Raw_row (Some (to_datetime (days_from_civil 2023 1 2) + 600))
                            100 101 99 102 5]])
        else if figi = ''G'' \<and> year = 2023
        then Response 200 (Zip [Csv [Raw_row None 100 101 99 102 5]])
        else Response 404 Bad_zip)\<rparr>"

definition batch :: "((string \<rightharpoonup> data option) \<times> world) option" where
  "batch =
     get_data_for_multiple_tickers market_service empty_world [''GAZP'', ''SBER'']
       (days_from_civil 2023 1 1) (days_from_civil 2023 1 31) ''1min''"

section \<open>The calendar\<close>

lemma div_between:
  fixes a b :: int
  assumes "0 < b"
  shows "b * (a div b) \<le> a" and "a < b * (a div b) + b"
proof -
  have "b * (a div b) + a mod b = a" by simp
  moreover have "0 \<le> a mod b" "a mod b < b" using assms by simp_all
  ultimately show "b * (a div b) \<le> a" and "a < b * (a div b) + b" by linarith+
qed

lemma div_succ:
  fixes a b :: int
  assumes "0 < b"
  shows "a div b \<le> (a + 1) div b" and "(a + 1) div b \<le> a div b + 1"
proof -
  show "a div b \<le> (a + 1) div b" using assms by (intro zdiv_mono1) simp_all
  have "(a + 1) div b \<le> (a + b) div b" using assms by (intro zdiv_mono1) simp_all
  also have "\<dots> = a div b + 1" using assms by simp
  finally show "(a + 1) div b \<le> a div b + 1" .
qed

lemma year_start_step:
  "year_start y + 364 \<le> year_start (y + 1) \<and> year_start (y + 1) \<le> year_start y + 367"
  using div_succ [of 4 y] div_succ [of 100 y] div_succ [of 400 y]
  unfolding year_start_def by simp











lemma month_start_eq:
  "month_start k = year_start ((k - 2) div 12) + (153 * ((k - 2) mod 12) + 2) div 5 - 719468"
proof -
  define q where "q = (k - 2) div 12"
  define r where "r = (k - 2) mod 12"
  have r: "0 \<le> r" "r < 12" unfolding r_def by simp_all
  have k: "k = 12 * q + r + 2" unfolding q_def r_def by simp
  show ?thesis
  proof (cases "r < 10")
    case True
    have kk: "k = 12 * q + (r + 2)" unfolding k by simp
    have "k div 12 = q"
      by (rule int_div_pos_eq [OF kk]) (use True r in simp_all)
    moreover have "k mod 12 = r + 2"
      by (rule int_mod_pos_eq [OF kk]) (use True r in simp_all)
    ultimately have "k div 12 = q" "k mod 12 = r + 2" by simp_all
    then show ?thesis using True r unfolding month_start_def days_from_civil_def Let_def q_def [symmetric] r_def [symmetric]
      by simp
  next
    case False
    have kk: "k = 12 * (q + 1) + (r - 10)" unfolding k by simp
    have "k div 12 = q + 1"
      by (rule int_div_pos_eq [OF kk]) (use False r in simp_all)
    moreover have "k mod 12 = r - 10"
      by (rule int_mod_pos_eq [OF kk]) (use False r in simp_all)
    ultimately have "k div 12 = q + 1" "k mod 12 = r - 10" by simp_all
    then show ?thesis using False r unfolding month_start_def days_from_civil_def Let_def q_def [symmetric] r_def [symmetric]
      by simp
  qed
qed

lemma month_start_step: "month_start k < month_start (k + 1)"
proof -
  define q where "q = (k - 2) div 12"
  define r where "r = (k - 2) mod 12"
  have r: "0 \<le> r" "r < 12" unfolding r_def by simp_all
  have k: "k - 2 = 12 * q + r" unfolding q_def r_def by simp
  show ?thesis
  proof (cases "r < 11")
    case True
    have kk: "k + 1 - 2 = 12 * q + (r + 1)" using k by simp
    have "(k + 1 - 2) div 12 = q"
      by (rule int_div_pos_eq [OF kk]) (use True r in simp_all)
    moreover have "(k + 1 - 2) mod 12 = r + 1"
      by (rule int_mod_pos_eq [OF kk]) (use True r in simp_all)
    moreover have "(153 * r + 2) div 5 < (153 * (r + 1) + 2) div 5"
    proof -
      define A where "A = (153 * r + 2) div 5"
      define B where "B = (153 * (r + 1) + 2) div 5"
      have p: "(0::int) < 5" by simp
      have "5 * A \<le> 153 * r + 2" "153 * (r + 1) + 2 < 5 * B + 5"
        unfolding A_def B_def by (rule div_between [OF p])+
      then have "A < B" by arith
      then show ?thesis unfolding A_def B_def .
    qed
    ultimately show ?thesis unfolding month_start_eq q_def [symmetric] r_def [symmetric] by simp
  next
    case False
    then have r11: "r = 11" using r by simp
    have "k + 1 - 2 = 12 * (q + 1) + 0" using k r11 by simp
    then have "(k + 1 - 2) div 12 = q + 1" "(k + 1 - 2) mod 12 = 0"
      by simp_all
    then show ?thesis using year_start_step [of q]
      unfolding month_start_eq q_def [symmetric] r_def [symmetric] r11 by simp
  qed
qed

lemma int_step_strict_mono:
  fixes f :: "int \<Rightarrow> int"
  assumes "\<And>k. f k < f (k + 1)" and "i < j"
  shows "f i < f j"
  using assms(2)
proof (induction "nat (j - i - 1)" arbitrary: j)
  case 0
  then have "j = i + 1" by simp
  then show ?case using assms(1) by simp
next
  case (Suc n)
  then have "n = nat ((j - 1) - i - 1)" "i < j - 1" by linarith+
  then have "f i < f (j - 1)" using Suc.hyps(1) by blast
  then show ?case using assms(1) [of "j - 1"] by simp
qed



section \<open>Loading, saving and gap detection\<close>

lemma drop_duplicates_subset: "set (drop_duplicates xs) \<subseteq> set xs"
  by (induction xs rule: drop_duplicates.induct) auto

lemma drop_duplicates_dates:
  "date_col ` set (drop_duplicates xs) = date_col ` set xs"
  by (induction xs rule: drop_duplicates.induct) auto

lemma drop_duplicates_distinct: "distinct (map date_col (drop_duplicates xs))"
proof (induction xs rule: drop_duplicates.induct)
  case 1
  then show ?case by simp
next
  case (2 b bs)
  have "date_col b \<notin> date_col ` set (drop_duplicates (filter (\<lambda>c. date_col c \<noteq> date_col b) bs))"
    unfolding drop_duplicates_dates by auto
  with 2 show ?case by simp
qed

lemma drop_duplicates_find:
  "find (\<lambda>c. date_col c = t) (drop_duplicates xs) = find (\<lambda>c. date_col c = t) xs"
proof (induction xs rule: drop_duplicates.induct)
  case 1
  then show ?case by simp
next
  case (2 b bs)
  have "find (\<lambda>c. date_col c = t) (filter (\<lambda>c. date_col c \<noteq> date_col b) bs)
          = find (\<lambda>c. date_col c = t) bs" if "date_col b \<noteq> t"
    using that by (induction bs) auto
  with 2 show ?case by simp
qed

lemma find_key_distinct:
  "distinct (map f xs) \<Longrightarrow> b \<in> set xs \<Longrightarrow> find (\<lambda>c. f c = f b) xs = Some b"
  by (induction xs) (auto simp: image_iff)


lemma distinct_map_insort_key:
  "distinct (map f (insort_key f x xs)) = (f x \<notin> f ` set xs \<and> distinct (map f xs))"
  by (induction xs) (auto simp: image_iff set_insort_key)

lemma distinct_map_sort_key: "distinct (map f (sort_key f xs)) = distinct (map f xs)"
  by (induction xs) (simp_all add: distinct_map_insort_key)

lemma sort_values_set: "set (sort_values xs) = set xs"
  by (simp add: sort_values_def)

lemma sort_values_sorted: "sorted (map date_col (sort_values xs))"
  by (simp add: sort_values_def)

lemma normalised_frame:
  fixes xs :: frame
  defines "r \<equiv> sort_values (drop_duplicates xs)"
  shows "sorted_wrt (<) (map date_col r)"
    and "date_col ` set r = date_col ` set xs"
    and "b \<in> set r \<Longrightarrow> find (\<lambda>c. date_col c = date_col b) xs = Some b"
proof -
  have d: "distinct (map date_col r)"
    unfolding r_def sort_values_def distinct_map_sort_key by (rule drop_duplicates_distinct)
  then show "sorted_wrt (<) (map date_col r)"
    unfolding strict_sorted_iff r_def using sort_values_sorted by simp
  show "date_col ` set r = date_col ` set xs"
    unfolding r_def sort_values_set by (rule drop_duplicates_dates)
  assume "b \<in> set r"
  then have "b \<in> set (drop_duplicates xs)" unfolding r_def sort_values_set .
  then have "find (\<lambda>c. date_col c = date_col b) (drop_duplicates xs) = Some b"
    using drop_duplicates_distinct by (intro find_key_distinct)
  then show "find (\<lambda>c. date_col c = date_col b) xs = Some b"
    unfolding drop_duplicates_find .
qed

lemma date_min_normalised:
  "xs \<noteq> [] \<Longrightarrow> date_min (sort_values (drop_duplicates xs)) = Min (date_col ` set xs)"
  "xs \<noteq> [] \<Longrightarrow> date_max (sort_values (drop_duplicates xs)) = Max (date_col ` set xs)"
  unfolding date_min_def date_max_def by (simp_all add: sort_values_set drop_duplicates_dates)

lemma drop_duplicates_Nil: "drop_duplicates xs = [] \<longleftrightarrow> xs = []"
  by (cases xs) simp_all

lemma sort_values_Nil: "sort_values xs = [] \<longleftrightarrow> xs = []"
  by (metis sort_values_set set_empty)

lemma load_processed_data_eq:
  "load_processed_data w ticker =
     (if processed w ticker = [] then None
      else Some (sort_values (drop_duplicates (concat (map snd (processed w ticker))))))"
  unfolding load_processed_data_def get_ticker_processed_path_def Let_def by simp

lemma drop_duplicates_id: "distinct (map date_col xs) \<Longrightarrow> drop_duplicates xs = xs"
proof (induction xs)
  case Nil
  then show ?case by simp
next
  case (Cons b bs)
  then have "filter (\<lambda>c. date_col c \<noteq> date_col b) bs = bs"
    by (intro filter_True) (auto simp: image_iff)
  with Cons show ?case by simp
qed

lemma missing_ranges:
  "get_missing_date_ranges w ticker start_date end_date =
     (let T = date_col ` set (concat (map snd (processed w ticker))) in
      if T = {} then [(to_datetime start_date, to_datetime end_date)]
      else (if to_datetime start_date < Min T then [(to_datetime start_date, Min T)] else []) @
           (if to_datetime end_date > Max T then [(Max T, to_datetime end_date)] else []))"
proof -
  define xs where "xs = concat (map snd (processed w ticker))"
  show ?thesis
  proof (cases "xs = []")
    case True
    have "load_processed_data w ticker = None \<or> load_processed_data w ticker = Some []"
      unfolding load_processed_data_eq xs_def [symmetric] True by (simp add: sort_values_def)
    then show ?thesis
      unfolding get_missing_date_ranges_def xs_def [symmetric] True Let_def by auto
  next
    case False
    then have "processed w ticker \<noteq> []" unfolding xs_def by auto
    then have load: "load_processed_data w ticker = Some (sort_values (drop_duplicates xs))"
      unfolding load_processed_data_eq xs_def by simp
    have ne: "sort_values (drop_duplicates xs) \<noteq> []"
      using False by (simp add: sort_values_Nil drop_duplicates_Nil)
    show ?thesis
      unfolding get_missing_date_ranges_def load xs_def [symmetric] Let_def
      using False ne by (simp add: date_min_normalised)
  qed
qed


lemmas calendar_defs = days_from_civil_def year_start_def to_datetime_def strftime_ymd_def

text \<open>
  Claim C1. \<^verbatim>\<open>get_missing_date_ranges\<close> returns the whole requested range, as one
  element, when no timestamp is persisted for the instrument. Otherwise, with \<open>Min T\<close>
  and \<open>Max T\<close> the first and last persisted timestamp, it returns at most two elements
  in order: the range from the requested start to \<open>Min T\<close> exactly when the start is
  before \<open>Min T\<close>, then the range from \<open>Max T\<close> to the requested end exactly when the
  end is after \<open>Max T\<close>. For data from 2023-01-10 to 2023-06-30 and the request
  2023-01-01 to 2023-12-31 these are (2023-01-01, 2023-01-10) and (2023-06-30, 2023-12-31).
\<close>

theorem get_missing_date_ranges_boundary_gaps:
  "get_missing_date_ranges w ticker start_date end_date =
     (let T = date_col ` set (concat (map snd (processed w ticker))) in
      if T = {} then [(to_datetime start_date, to_datetime end_date)]
      else (if to_datetime start_date < Min T then [(to_datetime start_date, Min T)] else []) @
           (if to_datetime end_date > Max T then [(Max T, to_datetime end_date)] else [])) \<and>
   get_missing_date_ranges extent_world ''SBER'' (days_from_civil 2023 1 1) (days_from_civil 2023 12 31) =
     [(to_datetime (days_from_civil 2023 1 1), to_datetime (days_from_civil 2023 1 10)),
      (to_datetime (days_from_civil 2023 6 30), to_datetime (days_from_civil 2023 12 31))]"
proof
  show "get_missing_date_ranges extent_world ''SBER'' (days_from_civil 2023 1 1) (days_from_civil 2023 12 31) =
     [(to_datetime (days_from_civil 2023 1 1), to_datetime (days_from_civil 2023 1 10)),
      (to_datetime (days_from_civil 2023 6 30), to_datetime (days_from_civil 2023 12 31))]"
    unfolding missing_ranges
    by (simp add: extent_world_def empty_world_def flat_bar_def calendar_defs)
qed (rule missing_ranges)


text \<open>
  Claim C8. When nothing is persisted for an instrument, saving a frame and loading the
  instrument returns the frame sorted by date and without duplicate dates; a frame that
  is sorted strictly by date is returned as it is.
\<close>

theorem save_then_load_round_trip:
  assumes "processed w ticker = []"
  shows "load_processed_data (save_processed_data w ticker s) ticker
           = Some (sort_values (drop_duplicates s)) \<and>
         (sorted_wrt (<) (map date_col s) \<longrightarrow>
            load_processed_data (save_processed_data w ticker s) ticker = Some s)"
proof -
  have "processed (save_processed_data w ticker s) ticker \<noteq> []"
    and "concat (map snd (processed (save_processed_data w ticker s) ticker)) = s"
    unfolding save_processed_data_def get_ticker_processed_path_def Let_def assms by simp_all
  then have l: "load_processed_data (save_processed_data w ticker s) ticker
           = Some (sort_values (drop_duplicates s))"
    unfolding load_processed_data_eq by simp
  have "sort_values (drop_duplicates s) = s" if "sorted_wrt (<) (map date_col s)"
    using that unfolding strict_sorted_iff sort_values_def
    by (simp add: drop_duplicates_id sort_key_id_if_sorted)
  with l show ?thesis by simp
qed

text \<open>The round trip on an unsorted frame with a repeated date, and on a sorted one.\<close>

theorem save_then_load_round_trip_witness:
  "processed empty_world ''SBER'' = [] \<and>
   load_processed_data
     (save_processed_data empty_world ''SBER'' [flat_bar 7 3, flat_bar 5 1, flat_bar 7 4, flat_bar 6 2])
     ''SBER'' = Some [flat_bar 5 1, flat_bar 6 2, flat_bar 7 3] \<and>
   sorted_wrt (<) (map date_col [flat_bar 5 1, flat_bar 6 2]) \<and>
   load_processed_data (save_processed_data empty_world ''SBER'' [flat_bar 5 1, flat_bar 6 2]) ''SBER''
     = Some [flat_bar 5 1, flat_bar 6 2]"
proof -
  have e: "processed empty_world ''SBER'' = []" by (simp add: empty_world_def)
  have s: "sorted_wrt (<) (map date_col [flat_bar 5 1, flat_bar 6 2])" by (simp add: flat_bar_def)
  show ?thesis
    using e s save_then_load_round_trip [OF e, of "[flat_bar 7 3, flat_bar 5 1, flat_bar 7 4, flat_bar 6 2]"]
      save_then_load_round_trip [OF e, of "[flat_bar 5 1, flat_bar 6 2]"]
    by (simp add: sort_values_def flat_bar_def)
qed

section \<open>Duplicate timestamps\<close>

lemma two_fragments_processed:
  "processed two_fragments ''SBER'' =
     [(Span 0 0, [flat_bar 0 1]), (Span 0 1, [flat_bar 0 2, flat_bar 1440 3])]"
  by (simp add: two_fragments_def save_processed_data_def get_ticker_processed_path_def
      empty_world_def flat_bar_def date_min_def date_max_def strftime_ymd_def)

lemma find_append_Some: "find P xs = Some b \<Longrightarrow> find P (xs @ ys) = Some b"
  by (induction xs) (auto split: if_splits)

text \<open>
  Claim C2, as stated (the last write for a timestamp wins), fails: of two fragments saved
  one after the other and listed in that order, loading keeps the row of the one saved
  first; and merging fetched data into existing data keeps the existing row, not the
  fetched one.
\<close>

theorem last_write_wins_counterexample:
  "load_processed_data two_fragments ''SBER'' = Some [flat_bar 0 1, flat_bar 1440 3] \<and>
   merge_data [flat_bar 0 1] [flat_bar 0 2] = [flat_bar 0 1] \<and>
   flat_bar 0 1 \<noteq> flat_bar 0 2"
  by (simp add: load_processed_data_eq two_fragments_processed merge_data_def sort_values_def
      flat_bar_def)

text \<open>
  Claim C2, amended. Loading returns \<^verbatim>\<open>None\<close> when nothing is persisted for the
  instrument. Otherwise it concatenates the fragments in the order in which the directory
  lists them, keeps for every timestamp the first row in that order, and sorts: the
  result is strictly ascending by timestamp, has exactly the timestamps of the fragments,
  and each of its rows is the first row of the concatenation with its timestamp. The merge
  of fetched data into existing data follows the same rule on the existing rows followed
  by the fetched ones, so the existing rows stay when their timestamps are distinct.
\<close>

theorem load_keeps_first_occurrence:
  "(processed w ticker = [] \<longrightarrow> load_processed_data w ticker = None) \<and>
   (processed w ticker \<noteq> [] \<longrightarrow>
      (\<exists>r. load_processed_data w ticker = Some r \<and>
           r = sort_values (drop_duplicates (concat (map snd (processed w ticker)))) \<and>
           sorted_wrt (<) (map date_col r) \<and>
           date_col ` set r = date_col ` set (concat (map snd (processed w ticker))) \<and>
           (\<forall>b\<in>set r. find (\<lambda>c. date_col c = date_col b)
                         (concat (map snd (processed w ticker))) = Some b))) \<and>
   (let r = merge_data existing_data new_data in
      sorted_wrt (<) (map date_col r) \<and>
      date_col ` set r = date_col ` set (existing_data @ new_data) \<and>
      (\<forall>b\<in>set r. find (\<lambda>c. date_col c = date_col b) (existing_data @ new_data) = Some b) \<and>
      (distinct (map date_col existing_data) \<longrightarrow> set existing_data \<subseteq> set r))"
proof (intro conjI impI)
  show "load_processed_data w ticker = None" if "processed w ticker = []"
    using that unfolding load_processed_data_eq by simp
  show "\<exists>r. load_processed_data w ticker = Some r \<and>
           r = sort_values (drop_duplicates (concat (map snd (processed w ticker)))) \<and>
           sorted_wrt (<) (map date_col r) \<and>
           date_col ` set r = date_col ` set (concat (map snd (processed w ticker))) \<and>
           (\<forall>b\<in>set r. find (\<lambda>c. date_col c = date_col b)
                         (concat (map snd (processed w ticker))) = Some b)"
    if "processed w ticker \<noteq> []"
    using that normalised_frame [where xs = "concat (map snd (processed w ticker))"]
    unfolding load_processed_data_eq by (simp del: set_concat)
  show "let r = merge_data existing_data new_data in
      sorted_wrt (<) (map date_col r) \<and>
      date_col ` set r = date_col ` set (existing_data @ new_data) \<and>
      (\<forall>b\<in>set r. find (\<lambda>c. date_col c = date_col b) (existing_data @ new_data) = Some b) \<and>
      (distinct (map date_col existing_data) \<longrightarrow> set existing_data \<subseteq> set r)"
  proof -
    define xs where "xs = existing_data @ new_data"
    define r where "r = sort_values (drop_duplicates xs)"
    note n = normalised_frame [where xs = xs, folded r_def]
    have "set existing_data \<subseteq> set r" if d: "distinct (map date_col existing_data)"
    proof
      fix b assume b: "b \<in> set existing_data"
      have f: "find (\<lambda>c. date_col c = date_col b) xs = Some b"
        unfolding xs_def using find_key_distinct [OF d b] by (rule find_append_Some)
      from b have "date_col b \<in> date_col ` set r" unfolding n(2) xs_def by simp
      then obtain b' where b': "b' \<in> set r" "date_col b' = date_col b" by auto
      have "find (\<lambda>c. date_col c = date_col b) xs = Some b'"
        using n(3) [OF b'(1)] unfolding b'(2) .
      then have "b' = b" unfolding f by simp
      then show "b \<in> set r" using b'(1) by simp
    qed
    with n show ?thesis
      unfolding Let_def merge_data_def xs_def [symmetric] r_def [symmetric] by simp
  qed
qed

text \<open>The two fragments above, and a merge of one existing row with a fetched one.\<close>

theorem load_keeps_first_occurrence_witness:
  "processed two_fragments ''SBER'' \<noteq> [] \<and>
   load_processed_data two_fragments ''SBER'' = Some [flat_bar 0 1, flat_bar 1440 3] \<and>
   flat_bar 0 1 \<in> set [flat_bar 0 1, flat_bar 1440 3] \<and>
   find (\<lambda>c. date_col c = date_col (flat_bar 0 1))
     (concat (map snd (processed two_fragments ''SBER''))) = Some (flat_bar 0 1) \<and>
   distinct (map date_col [flat_bar 0 1]) \<and>
   set [flat_bar 0 1] \<subseteq> set (merge_data [flat_bar 0 1] [flat_bar 0 2])"
  using load_keeps_first_occurrence [of two_fragments "''SBER''" "[flat_bar 0 1]" "[flat_bar 0 2]"]
  by (simp add: two_fragments_processed merge_data_def sort_values_def flat_bar_def)

section \<open>Resampling\<close>

lemma to_offset_cases:
  assumes "to_offset rule = Some off"
  shows "off = Minute 5 \<or> off = Minute 15 \<or> off = Hour \<or> off = Day \<or> off = Week \<or> off = Month_end"
  using assms unfolding to_offset_def by (auto split: if_splits)


lemma label_of_step:
  assumes "to_offset rule = Some off"
  shows "label_of off k < label_of off (k + 1)"
proof -
  from to_offset_cases [OF assms]
  consider (m5) "off = Minute 5" | (m15) "off = Minute 15" | (hour) "off = Hour"
    | (day) "off = Day" | (week) "off = Week" | (month) "off = Month_end"
    by blast
  then show ?thesis
  proof cases
    case m5
    show ?thesis unfolding m5 label_of.simps by simp
  next
    case m15
    show ?thesis unfolding m15 label_of.simps by simp
  next
    case hour
    show ?thesis unfolding hour label_of.simps by simp
  next
    case day
    show ?thesis unfolding day label_of.simps by simp
  next
    case week
    show ?thesis unfolding week label_of.simps by simp
  next
    case month
    have "month_start (k + 1) < month_start (k + 1 + 1)" by (rule month_start_step)
    then show ?thesis unfolding month label_of.simps by simp
  qed
qed

lemma label_of_strict_mono:
  assumes "to_offset rule = Some off" "i < j"
  shows "label_of off i < label_of off j"
  using label_of_step [OF assms(1)] assms(2) by (rule int_step_strict_mono)

lemma resample_map_rules:
  assumes "map_of resample_map timeframe = Some rule"
  shows "\<exists>off. to_offset rule = Some off"
  using assms unfolding resample_map_def to_offset_def by (auto split: if_splits)

lemma resample_ohlcv_recognised:
  assumes "map_of resample_map timeframe = Some rule" "to_offset rule = Some off" "df \<noteq> []"
  shows "resample_ohlcv (Some df) timeframe = Inr (resample off df)"
  using assms unfolding resample_ohlcv_def by simp

lemma resample_sorted:
  assumes "sorted (map date_col df)"
  shows "resample off df =
           map (\<lambda>k. agg off k (filter (\<lambda>c. bucket_of off (date_col c) = k) df))
             [bucket_of off (date_col (hd df))..bucket_of off (date_col (last df))]"
  unfolding resample_def Let_def sort_key_id_if_sorted [OF assms] ..



lemma agg_empty:
  "agg off k [] =
     \<lparr>date_out = label_of off k, open_out = None, min_out = None, max_out = None,
      close_out = None, volume_out = 0\<rparr>"
  unfolding agg_def agg_first_def agg_last_def agg_min_def agg_max_def by simp

lemmas resample_defs = resample_ohlcv_def resample_map_def to_offset_def resample_def agg_def
  agg_first_def agg_last_def agg_min_def agg_max_def




text \<open>
  Claim C4, as stated (a bucket without bars gives no row), fails: with bars at 09:00 and
  09:10 only, the \<^verbatim>\<open>5min\<close> result has a row for 09:05, with no prices and volume 0.
\<close>

theorem empty_bucket_counterexample:
  "resample_ohlcv (Some gap_bars) ''5min'' =
     Inr [\<lparr>date_out = 540, open_out = Some 10, min_out = Some 9, max_out = Some 11,
           close_out = Some 10, volume_out = 100\<rparr>,
          \<lparr>date_out = 545, open_out = None, min_out = None, max_out = None,
           close_out = None, volume_out = 0\<rparr>,
          \<lparr>date_out = 550, open_out = Some 9, min_out = Some 9, max_out = Some 12,
           close_out = Some 11, volume_out = 200\<rparr>] \<and>
   filter (\<lambda>c. 545 \<le> date_col c \<and> date_col c < 550) gap_bars = []"
  by (simp add: gap_bars_def ohlcv_def resample_defs)

text \<open>
  Claim C4, amended. For a non-empty frame sorted by date and a timeframe of
  \<^verbatim>\<open>resample_map\<close>, the result has exactly one row for every bucket from the bucket of
  the first bar to the bucket of the last bar, and none outside; the rows are strictly
  ascending by their labels; and the row of a bucket without bars has no prices and the
  volume 0 (nothing is filled forward).
\<close>

theorem resample_ohlcv_grid:
  "map_of resample_map timeframe = Some rule \<longrightarrow> to_offset rule = Some off \<longrightarrow>
   sorted (map date_col df) \<longrightarrow> df \<noteq> [] \<longrightarrow>
     (let first_bucket = bucket_of off (date_col (hd df));
          last_bucket = bucket_of off (date_col (last df))
      in \<exists>rows. resample_ohlcv (Some df) timeframe = Inr rows \<and>
           map date_out rows = map (label_of off) [first_bucket..last_bucket] \<and>
           sorted_wrt (<) (map date_out rows) \<and>
           (\<forall>k\<in>{first_bucket..last_bucket}.
              (\<forall>c\<in>set df. bucket_of off (date_col c) \<noteq> k) \<longrightarrow>
              \<lparr>date_out = label_of off k, open_out = None, min_out = None, max_out = None,
               close_out = None, volume_out = 0\<rparr> \<in> set rows))"
proof (intro impI)
  assume tf: "map_of resample_map timeframe = Some rule" and off: "to_offset rule = Some off"
    and s: "sorted (map date_col df)" and ne: "df \<noteq> []"
  define k0 where "k0 = bucket_of off (date_col (hd df))"
  define k1 where "k1 = bucket_of off (date_col (last df))"
  define rows where "rows = resample off df"
  have rows: "rows = map (\<lambda>k. agg off k (filter (\<lambda>c. bucket_of off (date_col c) = k) df)) [k0..k1]"
    unfolding rows_def k0_def k1_def by (rule resample_sorted [OF s])
  have labels: "map date_out rows = map (label_of off) [k0..k1]"
    unfolding rows by (simp add: agg_def)
  have "sorted_wrt (\<lambda>i j. label_of off i < label_of off j) [k0..k1]"
    using sorted_wrt_upto [of k0 k1]
    by (rule sorted_wrt_mono_rel [rotated]) (simp add: label_of_strict_mono [OF off])
  then have sorted: "sorted_wrt (<) (map date_out rows)"
    unfolding labels sorted_wrt_map .
  have empty: "\<lparr>date_out = label_of off k, open_out = None, min_out = None, max_out = None,
               close_out = None, volume_out = 0\<rparr> \<in> set rows"
    if k: "k \<in> {k0..k1}" and e: "\<forall>c\<in>set df. bucket_of off (date_col c) \<noteq> k" for k
  proof -
    have "filter (\<lambda>c. bucket_of off (date_col c) = k) df = []"
      using e by (simp add: filter_empty_conv)
    then have a: "agg off k (filter (\<lambda>c. bucket_of off (date_col c) = k) df) =
       \<lparr>date_out = label_of off k, open_out = None, min_out = None, max_out = None,
               close_out = None, volume_out = 0\<rparr>"
      by (simp add: agg_empty)
    have m: "k \<in> set [k0..k1]" using k by simp
    have "(\<lambda>k. agg off k (filter (\<lambda>c. bucket_of off (date_col c) = k) df)) k \<in> set rows"
      unfolding rows set_map using m by (rule imageI)
    then show ?thesis unfolding a .
  qed
  show "let first_bucket = bucket_of off (date_col (hd df));
          last_bucket = bucket_of off (date_col (last df))
      in \<exists>rows. resample_ohlcv (Some df) timeframe = Inr rows \<and>
           map date_out rows = map (label_of off) [first_bucket..last_bucket] \<and>
           sorted_wrt (<) (map date_out rows) \<and>
           (\<forall>k\<in>{first_bucket..last_bucket}.
              (\<forall>c\<in>set df. bucket_of off (date_col c) \<noteq> k) \<longrightarrow>
              \<lparr>date_out = label_of off k, open_out = None, min_out = None, max_out = None,
               close_out = None, volume_out = 0\<rparr> \<in> set rows)"
    unfolding Let_def k0_def [symmetric] k1_def [symmetric]
      resample_ohlcv_recognised [OF tf off ne] rows_def [symmetric]
  proof (intro exI [of _ rows] conjI ballI impI)
    fix k
    assume "k \<in> {k0..k1}" "\<forall>c\<in>set df. bucket_of off (date_col c) \<noteq> k"
    then show "\<lparr>date_out = label_of off k, open_out = None, min_out = None, max_out = None,
               close_out = None, volume_out = 0\<rparr> \<in> set rows"
      by (rule empty)
  qed (rule refl labels sorted)+
qed

text \<open>The bars at 09:00 and 09:10: three rows, the one of 09:05 empty.\<close>

theorem resample_ohlcv_grid_witness:
  "map_of resample_map ''5min'' = Some ''5T'' \<and> to_offset ''5T'' = Some (Minute 5) \<and>
   sorted (map date_col gap_bars) \<and> gap_bars \<noteq> [] \<and>
   bucket_of (Minute 5) (date_col (hd gap_bars)) = 108 \<and>
   bucket_of (Minute 5) (date_col (last gap_bars)) = 110 \<and>
   (\<exists>rows. resample_ohlcv (Some gap_bars) ''5min'' = Inr rows \<and>
      map date_out rows = [540, 545, 550] \<and>
      sorted_wrt (<) (map date_out rows) \<and>
      \<lparr>date_out = 545, open_out = None, min_out = None, max_out = None,
       close_out = None, volume_out = 0\<rparr> \<in> set rows)"
proof -
  have h: "map_of resample_map ''5min'' = Some ''5T''" "to_offset ''5T'' = Some (Minute 5)"
    "sorted (map date_col gap_bars)" "gap_bars \<noteq> []"
    by (simp_all add: resample_map_def to_offset_def gap_bars_def ohlcv_def)
  have b: "bucket_of (Minute 5) (date_col (hd gap_bars)) = 108"
    "bucket_of (Minute 5) (date_col (last gap_bars)) = 110"
    by (simp_all add: gap_bars_def ohlcv_def)
  have u: "[108..110] = [108, 109, 110::int]" by (simp add: upto_rec_numeral)
  have e: "\<forall>c\<in>set gap_bars. bucket_of (Minute 5) (date_col c) \<noteq> 109"
    by (simp add: gap_bars_def ohlcv_def)
  from resample_ohlcv_grid [of "''5min''" "''5T''" "Minute 5" gap_bars] h
  obtain rows where r: "resample_ohlcv (Some gap_bars) ''5min'' = Inr rows"
    "map date_out rows = map (label_of (Minute 5)) [108..110]"
    "sorted_wrt (<) (map date_out rows)"
    "\<forall>k\<in>{108..110}. (\<forall>c\<in>set gap_bars. bucket_of (Minute 5) (date_col c) \<noteq> k) \<longrightarrow>
       \<lparr>date_out = label_of (Minute 5) k, open_out = None, min_out = None, max_out = None,
        close_out = None, volume_out = 0\<rparr> \<in> set rows"
    unfolding Let_def b by blast
  have "109 \<in> {108..110::int}" by simp
  from bspec [OF r(4) this] e
  have "\<lparr>date_out = label_of (Minute 5) 109, open_out = None, min_out = None,
      max_out = None, close_out = None, volume_out = 0\<rparr> \<in> set rows"
    by blast
  with r(1-3) h b show ?thesis unfolding u by simp
qed




section \<open>Requests to the remote service\<close>


lemma download_year_data_answer:
  assumes "\<not> rate_limited (server dl (length (requests w)) figi year)"
  shows "download_year_data dl ticker figi year w =
     (case server dl (length (requests w)) figi year of
        Request_exception \<Rightarrow> Some (None, w\<lparr>requests := requests w @ [(figi, year)]\<rparr>)
      | Response code body \<Rightarrow>
          if code = 200 then
            Some (Some (figi, year),
              store_raw_data (w\<lparr>requests := requests w @ [(figi, year)]\<rparr>) ticker figi year body)
          else Some (None, w\<lparr>requests := requests w @ [(figi, year)]\<rparr>))"
  using assms unfolding rate_limited_def
  by (subst download_year_data.simps) (simp split: response.splits)

lemma store_raw_data_fields [simp]:
  "requests (store_raw_data w ticker figi year body) = requests w"
  "slept (store_raw_data w ticker figi year body) = slept w"
  "processed (store_raw_data w ticker figi year body) = processed w"
  "figi_txt (store_raw_data w ticker figi year body) = figi_txt w"
  unfolding store_raw_data_def by (simp_all add: Let_def)



lemma download_year_data_returns:
  assumes "download_year_data dl ticker figi year w = Some r"
  shows "\<exists>i. \<not> rate_limited (server dl (length (requests w) + i) figi year)"
proof (rule download_year_data.raw_induct
    [where P = "\<lambda>dl ticker figi year w r.
       \<exists>i. \<not> rate_limited (server dl (length (requests w) + i) figi year)", OF _ assms],
    goal_cases)
  case (1 f dl ticker figi year w r)
  show ?case
  proof (cases "rate_limited (server dl (length (requests w)) figi year)")
    case True
    then have "f dl ticker figi year
             (w\<lparr>requests := requests w @ [(figi, year)], slept := slept w + 5\<rparr>) = Some r"
      using 1(2) unfolding rate_limited_def by (simp split: response.splits if_splits)
    then have "\<exists>i. \<not> rate_limited (server dl (length (requests
        (w\<lparr>requests := requests w @ [(figi, year)], slept := slept w + 5\<rparr>)) + i) figi year)"
      by (rule 1(1))
    then obtain i where
      "\<not> rate_limited (server dl (length (requests w) + Suc i) figi year)" by auto
    then show ?thesis by blast
  next
    case False
    then have "\<not> rate_limited (server dl (length (requests w) + 0) figi year)" by simp
    then show ?thesis by blast
  qed
qed




section \<open>The order of the requests\<close>

lemma save_processed_data_fields [simp]:
  "requests (save_processed_data w ticker data) = requests w"
  "slept (save_processed_data w ticker data) = slept w"
  "raw (save_processed_data w ticker data) = raw w"
  "figi_txt (save_processed_data w ticker data) = figi_txt w"
  unfolding save_processed_data_def by (simp_all add: Let_def)





lemma download_for_ticker_steps:
  "download_for_ticker dl w t start_date end_date =
     (case (if get_correct_figi w (get_figi dl t) \<noteq> ''0''
            then download_years dl t (get_correct_figi w (get_figi dl t))
                   [year_of start_date..year_of end_date] [] w
            else download_lists dl t [get_figi dl t, get_isin dl t, get_uid dl t]
                   [year_of start_date..year_of end_date] [] w) of
        None \<Rightarrow> None
      | Some (fs, w') \<Rightarrow>
          (case load_raw_csv_files (extract_raw_data w' t) of
             Inl e \<Rightarrow> Some (Inl e, w')
           | Inr None \<Rightarrow> Some (Inr None, w')
           | Inr (Some data) \<Rightarrow>
               Some (Inr (Some (filter (\<lambda>b. to_datetime start_date \<le> date_col b \<and>
                                          date_col b \<le> to_datetime end_date) data)),
                     save_processed_data w' t
                       (filter (\<lambda>b. to_datetime start_date \<le> date_col b \<and>
                                    date_col b \<le> to_datetime end_date) data))))"
  unfolding download_for_ticker_def Let_def by simp











lemmas eval_defs =
  get_data_def get_minute_data_def load_processed_data_eq get_missing_date_ranges_def
  download_for_ticker_def get_figi_def get_uid_def get_isin_def df_screener_rub_def
  get_correct_figi_def is_figi_correct_def year_of_def civil_from_days_def march_year_def
  year_start_def days_from_civil_def Let_def download_year_data_answer rate_limited_def
  store_raw_data_def get_ticker_raw_path_def extract_raw_data_def load_raw_csv_files_def
  csv_rows_def parse_row_def List.map_filter_simps sort_values_def to_datetime_def
  save_processed_data_def get_ticker_processed_path_def date_min_def date_max_def
  strftime_ymd_def convert_timeframe_def merge_data_def

lemma upto_single: "[i..i] = [i::int]"
  by (simp add: upto_rec1)






section \<open>Repeated calls of \<^verbatim>\<open>get_data\<close>\<close>






section \<open>Batches\<close>

lemma same_files_refl: "same_files t w w"
  by (simp add: same_files_def)

lemma same_files_trans: "same_files t w1 w2 \<Longrightarrow> same_files t w2 w3 \<Longrightarrow> same_files t w1 w3"
  by (simp add: same_files_def)

lemma other_files_kept_refl: "other_files_kept t w w"
  by (simp add: other_files_kept_def)

lemma other_files_kept_trans:
  "other_files_kept t w1 w2 \<Longrightarrow> other_files_kept t w2 w3 \<Longrightarrow> other_files_kept t w1 w3"
  by (simp add: other_files_kept_def)

lemma other_files_kept_same:
  "other_files_kept t w w' \<Longrightarrow> t' \<noteq> t \<Longrightarrow> same_files t' w' w"
  by (simp add: other_files_kept_def same_files_def)

lemma download_year_data_stateless:
  assumes "stateless dl"
  shows "download_year_data dl ticker figi year w =
     (case server dl 0 figi year of
        Request_exception \<Rightarrow> Some (None, w\<lparr>requests := requests w @ [(figi, year)]\<rparr>)
      | Response code body \<Rightarrow>
          if code = 200 then
            Some (Some (figi, year),
              store_raw_data (w\<lparr>requests := requests w @ [(figi, year)]\<rparr>) ticker figi year body)
          else if code = 429 then None
          else Some (None, w\<lparr>requests := requests w @ [(figi, year)]\<rparr>))"
proof (cases "rate_limited (server dl 0 figi year)")
  case True
  have "download_year_data dl ticker figi year w = None"
  proof (cases "download_year_data dl ticker figi year w")
    case (Some r)
    from download_year_data_returns [OF this] obtain i where
      "\<not> rate_limited (server dl (length (requests w) + i) figi year)" ..
    with True assms show ?thesis unfolding stateless_def by metis
  qed simp
  with True show ?thesis unfolding rate_limited_def by (simp split: response.splits)
next
  case False
  have s: "server dl (length (requests w)) figi year = server dl 0 figi year"
    using assms unfolding stateless_def by blast
  with False have "\<not> rate_limited (server dl (length (requests w)) figi year)" by simp
  from download_year_data_answer [OF this] False show ?thesis
    unfolding s rate_limited_def by (simp split: response.splits)
qed

lemma download_year_data_local:
  assumes "stateless dl" "same_files t w1 w2"
    "download_year_data dl t figi year w1 = Some (p, w1')"
  shows "\<exists>w2'. download_year_data dl t figi year w2 = Some (p, w2') \<and> same_files t w1' w2'"
  using assms(2,3) unfolding download_year_data_stateless [OF assms(1)]
  by (auto simp: same_files_def store_raw_data_def get_ticker_raw_path_def Let_def
      split: response.splits if_splits)

lemma download_year_data_frame:
  assumes "stateless dl" "download_year_data dl t figi year w = Some (p, w')"
  shows "other_files_kept t w w'"
  using assms(2) unfolding download_year_data_stateless [OF assms(1)]
  by (auto simp: other_files_kept_def store_raw_data_def get_ticker_raw_path_def Let_def
      split: response.splits if_splits)

lemma download_years_local:
  assumes "stateless dl" "same_files t w1 w2"
    "download_years dl t figi years fs w1 = Some (fs', w1')"
  shows "\<exists>w2'. download_years dl t figi years fs w2 = Some (fs', w2') \<and> same_files t w1' w2'"
  using assms(2,3)
proof (induction years arbitrary: fs w1 w2)
  case Nil
  then show ?case by auto
next
  case (Cons year years)
  from Cons.prems(2) obtain p wa where
    a: "download_year_data dl t figi year w1 = Some (p, wa)" and
    b: "download_years dl t figi years (case p of None \<Rightarrow> fs | Some q \<Rightarrow> fs @ [q]) wa = Some (fs', w1')"
    by (auto split: option.splits)
  from download_year_data_local [OF assms(1) Cons.prems(1) a] obtain wb where
    c: "download_year_data dl t figi year w2 = Some (p, wb)" "same_files t wa wb" by blast
  from Cons.IH [OF c(2) b] obtain w2' where
    "download_years dl t figi years (case p of None \<Rightarrow> fs | Some q \<Rightarrow> fs @ [q]) wb = Some (fs', w2')"
    "same_files t w1' w2'" by blast
  with c(1) show ?case by auto
qed

lemma download_years_frame:
  assumes "stateless dl" "download_years dl t figi years fs w = Some (fs', w')"
  shows "other_files_kept t w w'"
  using assms(2)
proof (induction years arbitrary: fs w)
  case Nil
  then show ?case by (simp add: other_files_kept_refl)
next
  case (Cons year years)
  from Cons.prems obtain p wa where
    a: "download_year_data dl t figi year w = Some (p, wa)" and
    b: "download_years dl t figi years (case p of None \<Rightarrow> fs | Some q \<Rightarrow> fs @ [q]) wa = Some (fs', w')"
    by (auto split: option.splits)
  from download_year_data_frame [OF assms(1) a] Cons.IH [OF b] show ?case
    by (rule other_files_kept_trans)
qed

lemma download_ids_local:
  assumes "stateless dl" "same_files t w1 w2"
    "download_ids dl t ids years fs w1 = Some (fs', w1')"
  shows "\<exists>w2'. download_ids dl t ids years fs w2 = Some (fs', w2') \<and> same_files t w1' w2'"
  using assms(2,3)
proof (induction ids arbitrary: fs w1 w2)
  case Nil
  then show ?case by auto
next
  case (Cons i ids)
  from Cons.prems(2) obtain fa wa where
    a: "download_years dl t i years fs w1 = Some (fa, wa)" and
    b: "download_ids dl t ids years fa wa = Some (fs', w1')"
    by (auto split: option.splits)
  from download_years_local [OF assms(1) Cons.prems(1) a] obtain wb where
    c: "download_years dl t i years fs w2 = Some (fa, wb)" "same_files t wa wb" by blast
  from Cons.IH [OF c(2) b] obtain w2' where
    "download_ids dl t ids years fa wb = Some (fs', w2')" "same_files t w1' w2'" by blast
  with c(1) show ?case by auto
qed

lemma download_ids_frame:
  assumes "stateless dl" "download_ids dl t ids years fs w = Some (fs', w')"
  shows "other_files_kept t w w'"
  using assms(2)
proof (induction ids arbitrary: fs w)
  case Nil
  then show ?case by (simp add: other_files_kept_refl)
next
  case (Cons i ids)
  from Cons.prems obtain fa wa where
    a: "download_years dl t i years fs w = Some (fa, wa)" and
    b: "download_ids dl t ids years fa wa = Some (fs', w')"
    by (auto split: option.splits)
  from download_years_frame [OF assms(1) a] Cons.IH [OF b] show ?case
    by (rule other_files_kept_trans)
qed

lemma download_lists_local:
  assumes "stateless dl" "same_files t w1 w2"
    "download_lists dl t ls years fs w1 = Some (fs', w1')"
  shows "\<exists>w2'. download_lists dl t ls years fs w2 = Some (fs', w2') \<and> same_files t w1' w2'"
  using assms(2,3)
proof (induction ls arbitrary: fs w1 w2)
  case Nil
  then show ?case by auto
next
  case (Cons l ls)
  from Cons.prems(2) obtain fa wa where
    a: "download_ids dl t l years fs w1 = Some (fa, wa)" and
    b: "download_lists dl t ls years fa wa = Some (fs', w1')"
    by (auto split: option.splits)
  from download_ids_local [OF assms(1) Cons.prems(1) a] obtain wb where
    c: "download_ids dl t l years fs w2 = Some (fa, wb)" "same_files t wa wb" by blast
  from Cons.IH [OF c(2) b] obtain w2' where
    "download_lists dl t ls years fa wb = Some (fs', w2')" "same_files t w1' w2'" by blast
  with c(1) show ?case by auto
qed

lemma download_lists_frame:
  assumes "stateless dl" "download_lists dl t ls years fs w = Some (fs', w')"
  shows "other_files_kept t w w'"
  using assms(2)
proof (induction ls arbitrary: fs w)
  case Nil
  then show ?case by (simp add: other_files_kept_refl)
next
  case (Cons l ls)
  from Cons.prems obtain fa wa where
    a: "download_ids dl t l years fs w = Some (fa, wa)" and
    b: "download_lists dl t ls years fa wa = Some (fs', w')"
    by (auto split: option.splits)
  from download_ids_frame [OF assms(1) a] Cons.IH [OF b] show ?case
    by (rule other_files_kept_trans)
qed


lemma get_correct_figi_same:
  "figi_txt w1 = figi_txt w2 \<Longrightarrow> get_correct_figi w1 figi_list = get_correct_figi w2 figi_list"
  unfolding get_correct_figi_def is_figi_correct_def by simp

lemma download_for_ticker_local:
  assumes "stateless dl" "same_files t w1 w2"
    "download_for_ticker dl w1 t start_date end_date = Some (r, w1')"
  shows "\<exists>w2'. download_for_ticker dl w2 t start_date end_date = Some (r, w2') \<and>
           same_files t w1' w2'"
proof -
  define D where "D w = (if get_correct_figi w (get_figi dl t) \<noteq> ''0''
            then download_years dl t (get_correct_figi w (get_figi dl t))
                   [year_of start_date..year_of end_date] [] w
            else download_lists dl t [get_figi dl t, get_isin dl t, get_uid dl t]
                   [year_of start_date..year_of end_date] [] w)" for w
  have cf: "get_correct_figi w1 (get_figi dl t) = get_correct_figi w2 (get_figi dl t)"
    using assms(2) unfolding same_files_def by (intro get_correct_figi_same) simp
  from assms(3) obtain fs wa where a: "D w1 = Some (fs, wa)"
    unfolding download_for_ticker_steps D_def by (auto split: option.splits)
  have "\<exists>wb. D w2 = Some (fs, wb) \<and> same_files t wa wb"
  proof (cases "get_correct_figi w1 (get_figi dl t) \<noteq> ''0''")
    case True
    with a have "download_years dl t (get_correct_figi w1 (get_figi dl t))
                   [year_of start_date..year_of end_date] [] w1 = Some (fs, wa)"
      unfolding D_def by simp
    from download_years_local [OF assms(1,2) this] True show ?thesis
      unfolding D_def cf [symmetric] by simp
  next
    case False
    with a have "download_lists dl t [get_figi dl t, get_isin dl t, get_uid dl t]
                   [year_of start_date..year_of end_date] [] w1 = Some (fs, wa)"
      unfolding D_def by simp
    from download_lists_local [OF assms(1,2) this] False show ?thesis
      unfolding D_def cf [symmetric] by simp
  qed
  then obtain wb where b: "D w2 = Some (fs, wb)" "same_files t wa wb" by blast
  have e: "extract_raw_data wb t = extract_raw_data wa t"
    using b(2) unfolding same_files_def extract_raw_data_def get_ticker_raw_path_def by simp
  have s: "same_files t (save_processed_data wa t d) (save_processed_data wb t d)" for d
    using b(2) unfolding same_files_def save_processed_data_def get_ticker_processed_path_def
    by (simp add: Let_def)
  have 1: "download_for_ticker dl w1 t start_date end_date =
      (case load_raw_csv_files (extract_raw_data wa t) of
             Inl e \<Rightarrow> Some (Inl e, wa)
           | Inr None \<Rightarrow> Some (Inr None, wa)
           | Inr (Some data) \<Rightarrow>
               Some (Inr (Some (filter (\<lambda>b. to_datetime start_date \<le> date_col b \<and>
                                          date_col b \<le> to_datetime end_date) data)),
                     save_processed_data wa t
                       (filter (\<lambda>b. to_datetime start_date \<le> date_col b \<and>
                                    date_col b \<le> to_datetime end_date) data)))"
    unfolding download_for_ticker_steps D_def [symmetric] a by simp
  have 2: "download_for_ticker dl w2 t start_date end_date =
      (case load_raw_csv_files (extract_raw_data wa t) of
             Inl e \<Rightarrow> Some (Inl e, wb)
           | Inr None \<Rightarrow> Some (Inr None, wb)
           | Inr (Some data) \<Rightarrow>
               Some (Inr (Some (filter (\<lambda>b. to_datetime start_date \<le> date_col b \<and>
                                          date_col b \<le> to_datetime end_date) data)),
                     save_processed_data wb t
                       (filter (\<lambda>b. to_datetime start_date \<le> date_col b \<and>
                                    date_col b \<le> to_datetime end_date) data)))"
    unfolding download_for_ticker_steps D_def [symmetric] b(1) by (simp add: e)
  show ?thesis
  proof (cases "load_raw_csv_files (extract_raw_data wa t)")
    case (Inl err)
    have r: "r = Inl err" "w1' = wa" using assms(3) by (auto simp add: 1 Inl)
    have "download_for_ticker dl w2 t start_date end_date = Some (Inl err, wb)"
      by (simp add: 2 Inl)
    then show ?thesis unfolding r using b(2) by simp
  next
    case (Inr d)
    show ?thesis
    proof (cases d)
      case None
      have r: "r = Inr None" "w1' = wa" using assms(3) by (auto simp add: 1 Inr None)
      have "download_for_ticker dl w2 t start_date end_date = Some (Inr None, wb)"
        by (simp add: 2 Inr None)
      then show ?thesis unfolding r using b(2) by simp
    next
      case (Some data)
      define data' where "data' = filter (\<lambda>b. to_datetime start_date \<le> date_col b \<and>
                                          date_col b \<le> to_datetime end_date) data"
      have r: "r = Inr (Some data')" "w1' = save_processed_data wa t data'"
        using assms(3) by (auto simp add: 1 Inr Some data'_def)
      have "download_for_ticker dl w2 t start_date end_date
              = Some (Inr (Some data'), save_processed_data wb t data')"
        by (simp add: 2 Inr Some data'_def)
      then show ?thesis unfolding r using s by simp
    qed
  qed
qed

lemma download_for_ticker_frame:
  assumes "stateless dl" "download_for_ticker dl w t start_date end_date = Some (r, w')"
  shows "other_files_kept t w w'"
proof -
  define D where "D w = (if get_correct_figi w (get_figi dl t) \<noteq> ''0''
            then download_years dl t (get_correct_figi w (get_figi dl t))
                   [year_of start_date..year_of end_date] [] w
            else download_lists dl t [get_figi dl t, get_isin dl t, get_uid dl t]
                   [year_of start_date..year_of end_date] [] w)" for w
  from assms(2) obtain fs wa where a: "D w = Some (fs, wa)"
    unfolding download_for_ticker_steps D_def by (auto split: option.splits)
  have k: "other_files_kept t w wa"
  proof (cases "get_correct_figi w (get_figi dl t) \<noteq> ''0''")
    case True
    with a have "download_years dl t (get_correct_figi w (get_figi dl t))
                   [year_of start_date..year_of end_date] [] w = Some (fs, wa)"
      unfolding D_def by simp
    then show ?thesis by (rule download_years_frame [OF assms(1)])
  next
    case False
    with a have "download_lists dl t [get_figi dl t, get_isin dl t, get_uid dl t]
                   [year_of start_date..year_of end_date] [] w = Some (fs, wa)"
      unfolding D_def by simp
    then show ?thesis by (rule download_lists_frame [OF assms(1)])
  qed
  have s: "other_files_kept t wa (save_processed_data wa t d)" for d
    unfolding other_files_kept_def save_processed_data_def by (simp add: Let_def)
  have "download_for_ticker dl w t start_date end_date =
      (case load_raw_csv_files (extract_raw_data wa t) of
             Inl e \<Rightarrow> Some (Inl e, wa)
           | Inr None \<Rightarrow> Some (Inr None, wa)
           | Inr (Some data) \<Rightarrow>
               Some (Inr (Some (filter (\<lambda>b. to_datetime start_date \<le> date_col b \<and>
                                          date_col b \<le> to_datetime end_date) data)),
                     save_processed_data wa t
                       (filter (\<lambda>b. to_datetime start_date \<le> date_col b \<and>
                                    date_col b \<le> to_datetime end_date) data)))"
    unfolding download_for_ticker_steps D_def [symmetric] a by simp
  with assms(2) have "other_files_kept t wa w'"
    using s by (auto simp: other_files_kept_refl split: sum.splits option.splits)
  with k show ?thesis by (rule other_files_kept_trans)
qed

lemma download_missing_local:
  assumes "stateless dl" "same_files t w1 w2"
    "download_missing dl t ranges existing w1 = Some (r, w1')"
  shows "\<exists>w2'. download_missing dl t ranges existing w2 = Some (r, w2') \<and> same_files t w1' w2'"
  using assms(2,3)
proof (induction ranges arbitrary: existing w1 w2)
  case Nil
  then show ?case by auto
next
  case (Cons range ranges)
  obtain range_start range_end where rg: "range = (range_start, range_end)" by (cases range)
  from Cons.prems(2) obtain ra wa where
    a: "download_for_ticker dl w1 t (strftime_ymd range_start) (strftime_ymd range_end) = Some (ra, wa)"
    unfolding rg by (auto split: option.splits)
  from download_for_ticker_local [OF assms(1) Cons.prems(1) a] obtain wb where
    b: "download_for_ticker dl w2 t (strftime_ymd range_start) (strftime_ymd range_end) = Some (ra, wb)"
      "same_files t wa wb" by blast
  show ?case
  proof (cases ra)
    case (Inl e)
    with Cons.prems(2) a b show ?thesis unfolding rg by auto
  next
    case (Inr new_data)
    with Cons.prems(2) a have "download_missing dl t ranges
            (case new_data of
               None \<Rightarrow> existing
             | Some new \<Rightarrow> if length new > 0 then merge_data existing new else existing)
            wa = Some (r, w1')"
      unfolding rg by simp
    from Cons.IH [OF b(2) this] Inr b(1) show ?thesis unfolding rg by simp
  qed
qed

lemma download_missing_frame:
  assumes "stateless dl" "download_missing dl t ranges existing w = Some (r, w')"
  shows "other_files_kept t w w'"
  using assms(2)
proof (induction ranges arbitrary: existing w)
  case Nil
  then show ?case by (simp add: other_files_kept_refl)
next
  case (Cons range ranges)
  obtain range_start range_end where rg: "range = (range_start, range_end)" by (cases range)
  from Cons.prems obtain ra wa where
    a: "download_for_ticker dl w t (strftime_ymd range_start) (strftime_ymd range_end) = Some (ra, wa)"
    unfolding rg by (auto split: option.splits)
  note k = download_for_ticker_frame [OF assms(1) a]
  show ?case
  proof (cases ra)
    case (Inl e)
    with Cons.prems a k show ?thesis unfolding rg by auto
  next
    case (Inr new_data)
    with Cons.prems a have "download_missing dl t ranges
            (case new_data of
               None \<Rightarrow> existing
             | Some new \<Rightarrow> if length new > 0 then merge_data existing new else existing)
            wa = Some (r, w')"
      unfolding rg by simp
    from k Cons.IH [OF this] show ?thesis by (rule other_files_kept_trans)
  qed
qed

lemma get_data_steps:
  "get_data dl w t start_date end_date timeframe False =
     (case load_processed_data w t of
        None \<Rightarrow>
          (case download_for_ticker dl w t start_date end_date of
             None \<Rightarrow> None
           | Some (Inl e, w') \<Rightarrow> Some (Inl e, w')
           | Some (Inr data, w') \<Rightarrow> Some (convert_timeframe timeframe data, w'))
      | Some existing \<Rightarrow>
          (case download_missing dl t (get_missing_date_ranges w t start_date end_date) existing w of
             None \<Rightarrow> None
           | Some (Inl e, w') \<Rightarrow> Some (Inl e, w')
           | Some (Inr existing', w') \<Rightarrow>
               Some (convert_timeframe timeframe
                 (Some (filter (\<lambda>b. to_datetime start_date \<le> date_col b \<and>
                                     date_col b \<le> to_datetime end_date) existing')), w')))"
  unfolding get_data_def get_minute_data_def Let_def
  by (simp split: option.splits sum.splits prod.splits)

lemma get_data_local:
  assumes "stateless dl" "same_files t w1 w2"
    "get_data dl w1 t start_date end_date timeframe False = Some (r, w1')"
  shows "\<exists>w2'. get_data dl w2 t start_date end_date timeframe False = Some (r, w2') \<and>
           same_files t w1' w2'"
proof -
  have l: "load_processed_data w1 t = load_processed_data w2 t"
    using assms(2) unfolding same_files_def load_processed_data_eq by simp
  have m: "get_missing_date_ranges w1 t start_date end_date
             = get_missing_date_ranges w2 t start_date end_date"
    unfolding get_missing_date_ranges_def l ..
  show ?thesis
  proof (cases "load_processed_data w1 t")
    case None
    with assms(3) obtain ra where
      a: "download_for_ticker dl w1 t start_date end_date = Some (ra, w1')"
      unfolding get_data_steps by (auto split: option.splits sum.splits)
    from download_for_ticker_local [OF assms(1,2) a] obtain w2' where
      b: "download_for_ticker dl w2 t start_date end_date = Some (ra, w2')" "same_files t w1' w2'"
      by blast
    have "\<exists>x. get_data dl w1 t start_date end_date timeframe False = Some (x, w1') \<and>
               get_data dl w2 t start_date end_date timeframe False = Some (x, w2')"
      by (simp add: get_data_steps l [symmetric] None a b(1) split: sum.splits)
    with assms(3) b(2) show ?thesis by auto
  next
    case (Some existing)
    with assms(3) obtain ra where
      a: "download_missing dl t (get_missing_date_ranges w1 t start_date end_date) existing w1
            = Some (ra, w1')"
      unfolding get_data_steps by (auto split: option.splits sum.splits)
    from download_missing_local [OF assms(1,2) a] obtain w2' where
      b: "download_missing dl t (get_missing_date_ranges w1 t start_date end_date) existing w2
            = Some (ra, w2')" "same_files t w1' w2'"
      by blast
    have "\<exists>x. get_data dl w1 t start_date end_date timeframe False = Some (x, w1') \<and>
               get_data dl w2 t start_date end_date timeframe False = Some (x, w2')"
      by (simp add: get_data_steps l [symmetric] m [symmetric] Some a b(1) split: sum.splits)
    with assms(3) b(2) show ?thesis by auto
  qed
qed

lemma get_data_frame:
  assumes "stateless dl" "get_data dl w t start_date end_date timeframe False = Some (r, w')"
  shows "other_files_kept t w w'"
  using assms(2) download_for_ticker_frame [OF assms(1)] download_missing_frame [OF assms(1)]
  unfolding get_data_steps
  by (auto split: option.splits sum.splits)


lemma collect_results_dom: "dom (collect_results fs m) = dom m \<union> fst ` set fs"
proof (induction fs arbitrary: m)
  case Nil
  then show ?case by simp
next
  case (Cons f fs)
  obtain t r where f: "f = (t, r)" by (cases f)
  show ?case unfolding f by (cases r) (auto simp add: Cons.IH)
qed

lemma collect_results_other: "t \<notin> fst ` set fs \<Longrightarrow> collect_results fs m t = m t"
  by (induction fs arbitrary: m) (auto split: sum.splits)

lemma collect_results_entry:
  "distinct (map fst fs) \<Longrightarrow> (t, r) \<in> set fs \<Longrightarrow>
     collect_results fs m t = Some (case r of Inl e \<Rightarrow> None | Inr d \<Rightarrow> d)"
proof (induction fs arbitrary: m)
  case Nil
  then show ?case by simp
next
  case (Cons f fs)
  obtain t' r' where f: "f = (t', r')" by (cases f)
  show ?case
  proof (cases "(t, r) \<in> set fs")
    case True
    with Cons show ?thesis unfolding f by simp
  next
    case False
    with Cons.prems have e: "t' = t" "r' = r" and n: "t \<notin> fst ` set fs"
      unfolding f by auto
    show ?thesis unfolding f e using collect_results_other [OF n] by (simp split: sum.splits)
  qed
qed

lemma run_futures_tickers:
  "run_futures dl w tickers start_date end_date timeframe = Some (fs, w') \<Longrightarrow> map fst fs = tickers"
  by (induction tickers arbitrary: w fs) (auto split: option.splits)

lemma run_futures_prefix:
  "run_futures dl w (xs @ t # ys) start_date end_date timeframe = Some (fs, w') \<Longrightarrow>
     \<exists>fa wa r wb.
        run_futures dl w xs start_date end_date timeframe = Some (fa, wa) \<and>
        get_data dl wa t start_date end_date timeframe False = Some (r, wb) \<and>
        (t, r) \<in> set fs"
proof (induction xs arbitrary: w fs)
  case Nil
  then show ?case by (auto split: option.splits)
next
  case (Cons x xs)
  from Cons.prems obtain rx wx fx where
    a: "get_data dl w x start_date end_date timeframe False = Some (rx, wx)" and
    b: "run_futures dl wx (xs @ t # ys) start_date end_date timeframe = Some (fx, w')" and
    c: "fs = (x, rx) # fx"
    by (auto split: option.splits)
  from Cons.IH [OF b] obtain fa wa r wb where
    "run_futures dl wx xs start_date end_date timeframe = Some (fa, wa)"
    "get_data dl wa t start_date end_date timeframe False = Some (r, wb)" "(t, r) \<in> set fx"
    by blast
  with a c show ?case by auto
qed

lemma run_futures_isolated:
  assumes "stateless dl"
  shows "distinct tickers \<Longrightarrow> \<forall>t\<in>set tickers. same_files t w w0 \<Longrightarrow>
     run_futures dl w tickers start_date end_date timeframe = Some (fs, w') \<Longrightarrow>
     (t, r) \<in> set fs \<Longrightarrow>
     \<exists>wt. get_data dl w0 t start_date end_date timeframe False = Some (r, wt)"
proof (induction tickers arbitrary: w fs)
  case Nil
  then show ?case by simp
next
  case (Cons x xs)
  from Cons.prems(3) obtain rx wx fx where
    a: "get_data dl w x start_date end_date timeframe False = Some (rx, wx)" and
    b: "run_futures dl wx xs start_date end_date timeframe = Some (fx, w')" and
    c: "fs = (x, rx) # fx"
    by (auto split: option.splits)
  show ?case
  proof (cases "(t, r) = (x, rx)")
    case True
    have "same_files x w w0" using Cons.prems(2) by simp
    from get_data_local [OF assms this a] True show ?thesis by auto
  next
    case False
    with Cons.prems(4) c have m: "(t, r) \<in> set fx" by auto
    have k: "other_files_kept x w wx" using assms a by (rule get_data_frame)
    have "\<forall>u\<in>set xs. same_files u wx w0"
    proof
      fix u assume u: "u \<in> set xs"
      with Cons.prems(1) have "u \<noteq> x" by auto
      with k have "same_files u wx w" by (rule other_files_kept_same)
      moreover have "same_files u w w0" using Cons.prems(2) u by simp
      ultimately show "same_files u wx w0" by (rule same_files_trans)
    qed
    with Cons.IH [OF _ _ b m] Cons.prems(1) show ?thesis by simp
  qed
qed

text \<open>
  Claim C9. When \<^verbatim>\<open>get_data_for_multiple_tickers\<close> returns, the dictionary has an entry
  for exactly the requested instruments. For distinct instruments, the entry of an
  instrument is what its own call of \<^verbatim>\<open>get_data\<close> returned, and \<^verbatim>\<open>None\<close> when that call
  raised, whatever the calls for the other instruments did. With a stateless service the
  entry is moreover what \<^verbatim>\<open>get_data\<close> returns for the instrument alone on the initial
  state: a failure for another instrument of the batch does not change it. (The workers
  are modelled as taking the instruments in the order of submission.)
\<close>

theorem batch_results_complete_and_isolated:
  "get_data_for_multiple_tickers dl w tickers start_date end_date timeframe = Some (results, w') \<longrightarrow>
     dom results = set tickers \<and>
     (distinct tickers \<longrightarrow>
        (\<forall>t\<in>set tickers. \<exists>fa wa r wb.
           run_futures dl w (takeWhile (\<lambda>x. x \<noteq> t) tickers) start_date end_date timeframe
             = Some (fa, wa) \<and>
           get_data dl wa t start_date end_date timeframe False = Some (r, wb) \<and>
           results t = Some (case r of Inl err \<Rightarrow> None | Inr d \<Rightarrow> d))) \<and>
     (distinct tickers \<longrightarrow> stateless dl \<longrightarrow>
        (\<forall>t\<in>set tickers. \<exists>r wt.
           get_data dl w t start_date end_date timeframe False = Some (r, wt) \<and>
           results t = Some (case r of Inl err \<Rightarrow> None | Inr d \<Rightarrow> d)))"
proof (intro impI)
  assume "get_data_for_multiple_tickers dl w tickers start_date end_date timeframe = Some (results, w')"
  then obtain fs where
    run: "run_futures dl w tickers start_date end_date timeframe = Some (fs, w')" and
    res: "results = collect_results fs Map.empty"
    unfolding get_data_for_multiple_tickers_def by (auto split: option.splits)
  note names = run_futures_tickers [OF run]
  have dom: "dom results = set tickers"
    unfolding res collect_results_dom names [symmetric] by simp
  have own: "\<exists>fa wa r wb.
           run_futures dl w (takeWhile (\<lambda>x. x \<noteq> t) tickers) start_date end_date timeframe
             = Some (fa, wa) \<and>
           get_data dl wa t start_date end_date timeframe False = Some (r, wb) \<and>
           results t = Some (case r of Inl err \<Rightarrow> None | Inr d \<Rightarrow> d)"
    if d: "distinct tickers" and t: "t \<in> set tickers" for t
  proof -
    have "dropWhile (\<lambda>x. x \<noteq> t) tickers \<noteq> []" using t by (simp add: dropWhile_eq_Nil_conv)
    then have "hd (dropWhile (\<lambda>x. x \<noteq> t) tickers) = t"
      using hd_dropWhile [of "\<lambda>x. x \<noteq> t" tickers] by simp
    with \<open>dropWhile (\<lambda>x. x \<noteq> t) tickers \<noteq> []\<close>
    have "dropWhile (\<lambda>x. x \<noteq> t) tickers = t # tl (dropWhile (\<lambda>x. x \<noteq> t) tickers)"
      by (metis list.collapse)
    then have "tickers = takeWhile (\<lambda>x. x \<noteq> t) tickers @ t # tl (dropWhile (\<lambda>x. x \<noteq> t) tickers)"
      by (metis takeWhile_dropWhile_id)
    with run have "run_futures dl w
        (takeWhile (\<lambda>x. x \<noteq> t) tickers @ t # tl (dropWhile (\<lambda>x. x \<noteq> t) tickers))
        start_date end_date timeframe = Some (fs, w')" by simp
    from run_futures_prefix [OF this] obtain fa wa r wb where
      p: "run_futures dl w (takeWhile (\<lambda>x. x \<noteq> t) tickers) start_date end_date timeframe = Some (fa, wa)"
      "get_data dl wa t start_date end_date timeframe False = Some (r, wb)" "(t, r) \<in> set fs"
      by blast
    have "distinct (map fst fs)" unfolding names by (rule d)
    from collect_results_entry [OF this p(3)] p(1,2) show ?thesis unfolding res by blast
  qed
  have alone: "\<exists>r wt. get_data dl w t start_date end_date timeframe False = Some (r, wt) \<and>
           results t = Some (case r of Inl err \<Rightarrow> None | Inr d \<Rightarrow> d)"
    if d: "distinct tickers" and s: "stateless dl" and t: "t \<in> set tickers" for t
  proof -
    from t obtain r where m: "(t, r) \<in> set fs" unfolding names [symmetric] by auto
    have "\<forall>u\<in>set tickers. same_files u w w" by (simp add: same_files_refl)
    from run_futures_isolated [OF s d this run m] obtain wt where
      "get_data dl w t start_date end_date timeframe False = Some (r, wt)" ..
    moreover have "distinct (map fst fs)" unfolding names by (rule d)
    from collect_results_entry [OF this m]
    have "results t = Some (case r of Inl err \<Rightarrow> None | Inr d \<Rightarrow> d)" unfolding res .
    ultimately show ?thesis by blast
  qed
  from dom own alone show "dom results = set tickers \<and>
     (distinct tickers \<longrightarrow>
        (\<forall>t\<in>set tickers. \<exists>fa wa r wb.
           run_futures dl w (takeWhile (\<lambda>x. x \<noteq> t) tickers) start_date end_date timeframe
             = Some (fa, wa) \<and>
           get_data dl wa t start_date end_date timeframe False = Some (r, wb) \<and>
           results t = Some (case r of Inl err \<Rightarrow> None | Inr d \<Rightarrow> d))) \<and>
     (distinct tickers \<longrightarrow> stateless dl \<longrightarrow>
        (\<forall>t\<in>set tickers. \<exists>r wt.
           get_data dl w t start_date end_date timeframe False = Some (r, wt) \<and>
           results t = Some (case r of Inl err \<Rightarrow> None | Inr d \<Rightarrow> d)))"
    by blast
qed


lemma batch_returns: "\<exists>results w'. batch = Some (results, w')"
  unfolding batch_def get_data_for_multiple_tickers_def
  by (simp add: eval_defs market_service_def empty_world_def)

lemma gazp_alone:
  "map_option fst (get_data market_service empty_world ''GAZP'' (days_from_civil 2023 1 1)
     (days_from_civil 2023 1 31) ''1min'' False) = Some (Inl ValueError)"
  by (simp add: eval_defs market_service_def empty_world_def)

lemma sber_alone:
  "map_option fst (get_data market_service empty_world ''SBER'' (days_from_civil 2023 1 1)
     (days_from_civil 2023 1 31) ''1min'' False) = Some (Inr (Some (Minute_data [jan2_bar])))"
  by (simp add: eval_defs market_service_def empty_world_def jan2_bar_def ohlcv_def)

text \<open>
  A batch in which the call for GAZP raises \<^verbatim>\<open>ValueError\<close>: its entry is \<^verbatim>\<open>None\<close>, and
  the entry for SBER is the frame of SBER.
\<close>

theorem batch_results_complete_and_isolated_witness:
  "distinct [''GAZP'', ''SBER''] \<and> stateless market_service \<and>
   map_option fst (get_data market_service empty_world ''GAZP'' (days_from_civil 2023 1 1)
     (days_from_civil 2023 1 31) ''1min'' False) = Some (Inl ValueError) \<and>
   (\<exists>results w'. batch = Some (results, w') \<and>
      dom results = {''GAZP'', ''SBER''} \<and>
      results ''GAZP'' = Some None \<and>
      results ''SBER'' = Some (Some (Minute_data [jan2_bar])))"
proof -
  have d: "distinct [''GAZP'', ''SBER'']" by simp
  have s: "stateless market_service" by (simp add: stateless_def market_service_def)
  from batch_returns obtain results w' where b: "batch = Some (results, w')" by blast
  note t = batch_results_complete_and_isolated
    [of market_service empty_world "[''GAZP'', ''SBER'']" "days_from_civil 2023 1 1"
      "days_from_civil 2023 1 31" "''1min''" results w']
  from t b have dom: "dom results = {''GAZP'', ''SBER''}"
    unfolding batch_def by auto
  from t b d s have alone: "\<forall>t\<in>set [''GAZP'', ''SBER''].
      \<exists>r wt. get_data market_service empty_world t (days_from_civil 2023 1 1)
                (days_from_civil 2023 1 31) ''1min'' False = Some (r, wt) \<and>
              results t = Some (case r of Inl err \<Rightarrow> None | Inr d \<Rightarrow> d)"
    unfolding batch_def by blast
  from alone gazp_alone have g: "results ''GAZP'' = Some None" by auto
  from alone sber_alone have r: "results ''SBER'' = Some (Some (Minute_data [jan2_bar]))" by auto
  from d s gazp_alone b dom g r show ?thesis by blast
qed

end
